theory Spec2Isabelle
  imports Complex_Main
begin

section \<open>Python values, frames and tracebacks\<close>

text \<open>
  The tracer of this repository inspects live Python stack frames.  The part of the
  Python runtime it reads is modelled as data:
  \<^item> exceptions raised by the modelled methods are values of \<open>error\<close>;
  \<^item> a callable object carries its identity (the allocation number of the object) and its
    \<open>__name__\<close>; a function object is the pair of the two, a class is identified by its
    name, and a bound method \<open>self.unknown\<close> carries its own identity and that of the
    collector it binds.  Equality of the HOL values is reference identity (\<open>is\<close>), and
    \<open>py_eq\<close> is Python's \<open>==\<close>: functions and classes compare by identity, bound
    methods by the object and function they bind;
  \<^item> a frame is \<open>f_code\<close>, \<open>f_lineno\<close>, \<open>f_locals\<close>, \<open>f_globals\<close> and
    \<open>f_back\<close>; dictionaries with string keys are association lists read with \<open>map_of\<close>;
  \<^item> what \<open>FunctionType(code, globals=..., name=...)\<close> does for a code object is the
    field \<open>co_new\<close> of the code object: it returns a new function, raises \<open>TypeError\<close>,
    or raises another exception.
  Every callable bound in a traced scope is assumed to carry a \<open>__name__\<close>.
  \<open>search_frame\<close> and \<open>search_func\<close> are modelled for the call that \<open>collect\<close>
  makes, with the frame given.

  The repository holds two copies of the collector class.  The copy in
  \<open>TarantulaDebugger.py\<close> defines the placeholder method \<open>unknown\<close>; the copy in
  \<open>debugger classes/CoverageCollector.py\<close> does not, so reading \<open>self.unknown\<close> there
  raises \<open>AttributeError\<close>.  The field \<open>c_unknown\<close> of a collector says which copy
  it is an instance of.  No file imports \<open>warnings\<close>, so \<open>warnings.warn\<close> raises
  \<open>NameError\<close> in both.
\<close>

datatype error =
    ValueError string
  | ZeroDivisionError
  | AssertionError
  | AttributeError string
  | NameError string
  | KeyError string

datatype callable =
    Func nat string
  | Class string
  | Method nat nat

fun name_of :: "callable \<Rightarrow> string" where
  "name_of (Func i n) = n"
| "name_of (Class n) = n"
| "name_of (Method i owner) = ''unknown''"

fun py_eq :: "callable \<Rightarrow> callable \<Rightarrow> bool" where
  "py_eq (Func i n) (Func j m) = (i = j \<and> n = m)"
| "py_eq (Class n) (Class m) = (n = m)"
| "py_eq (Method i s) (Method j t) = (s = t)"
| "py_eq f g = False"

datatype pyval =
    PyNone
  | PyCallable callable
  | PyInst "string list"
  | PyData string

fun isinstance :: "pyval \<Rightarrow> string \<Rightarrow> bool" where
  "isinstance (PyInst mro) cls = (cls \<in> set mro)"
| "isinstance v cls = False"

fun py_repr :: "pyval \<Rightarrow> string" where
  "py_repr PyNone = ''None''"
| "py_repr (PyCallable f) = ''<'' @ name_of f @ ''>''"
| "py_repr (PyInst mro) = ''<object>''"
| "py_repr (PyData s) = s"

datatype new_result = Created | TypeErr | OtherErr

record code =
  co_id :: nat
  co_name :: string
  co_new :: new_result

datatype frame =
  Frame (f_code: code) (f_lineno: int)
        (f_locals: "(string \<times> pyval) list") (f_globals: "(string \<times> pyval) list")
        (f_back: "frame option")

record exc_info =
  exc_tp :: string
  exc_traceback :: "frame list"

section \<open>CoverageCollector\<close>

datatype ignore_item = IgnoreType string | IgnoreCallable string

fun item_name :: "ignore_item \<Rightarrow> string" where
  "item_name (IgnoreType n) = n"
| "item_name (IgnoreCallable n) = n"

datatype tracefn = CollectorTraceit nat | OtherTrace nat

record collector =
  c_id :: nat
  c_class :: string
  c_unknown :: bool
  original_trace_function :: "tracefn option"
  generated_function_cache :: "string \<times> int \<Rightarrow> callable option"
  c_function :: "callable option"
  c_args :: "(string \<times> pyval) list option"
  c_argstring :: "string option"
  items_to_ignore :: "ignore_item list"
  c_coverage :: "(callable \<times> int) set"

text \<open>\<open>CoverageCollector.__init__\<close>; \<open>cid\<close> is the identity of the new object,
  \<open>cls\<close> is \<open>self.__class__\<close> and \<open>unk\<close> says whether that class defines \<open>unknown\<close>.\<close>

definition new_collector :: "nat \<Rightarrow> string \<Rightarrow> bool \<Rightarrow> collector" where
  "new_collector cid cls unk =
     \<lparr> c_id = cid, c_class = cls, c_unknown = unk, original_trace_function = None,
       generated_function_cache = Map.empty, c_function = None, c_args = None,
       c_argstring = None, items_to_ignore = [IgnoreType cls], c_coverage = {} \<rparr>"

definition add_items_to_ignore :: "ignore_item list \<Rightarrow> collector \<Rightarrow> collector" where
  "add_items_to_ignore items c = c\<lparr>items_to_ignore := items_to_ignore c @ items\<rparr>"

text \<open>\<open>our_frame\<close>: \<open>isinstance(frame.f_locals.get('self'), self.__class__)\<close>.\<close>

definition our_frame :: "collector \<Rightarrow> frame \<Rightarrow> bool" where
  "our_frame c frame =
     (case map_of (f_locals frame) ''self'' of
        None \<Rightarrow> False
      | Some v \<Rightarrow> isinstance v (c_class c))"

text \<open>\<open>search_frame\<close> walks \<open>f_back\<close>; in each frame the global binding is read first and
  overridden by the local one; \<open>item and callable(item)\<close> holds exactly for a binding to a
  callable (functions, classes and bound methods are truthy).\<close>

fun search_frame :: "string \<Rightarrow> frame \<Rightarrow> (frame \<times> callable) option" where
  "search_frame name (Frame cd lineno locs globs back) =
     (let item0 = (case map_of globs name of Some v \<Rightarrow> v | None \<Rightarrow> PyNone);
          item = (case map_of locs name of Some v \<Rightarrow> v | None \<Rightarrow> item0)
      in case item of
           PyCallable f \<Rightarrow> Some (Frame cd lineno locs globs back, f)
         | _ \<Rightarrow> (case back of None \<Rightarrow> None | Some b \<Rightarrow> search_frame name b))"

definition search_func :: "string \<Rightarrow> frame \<Rightarrow> callable option" where
  "search_func name frame = map_option snd (search_frame name frame)"

text \<open>\<open>create_function\<close>.  The state is the collector and the next free object identity.
  A new function object, and the bound method object that reading \<open>self.unknown\<close> creates,
  take the next identity.  The cache key is the name and \<open>frame.f_lineno\<close>.  An exception
  raised inside a handler leaves the function before the cache is written.\<close>

definition create_function ::
  "frame \<Rightarrow> collector \<times> nat \<Rightarrow> error + (callable \<times> (collector \<times> nat))" where
  "create_function frame st =
     (case st of (c, n) \<Rightarrow>
        let name = co_name (f_code frame);
            cache_key = (name, f_lineno frame);
            store = (\<lambda>generated_function.
                       Inr (generated_function,
                            (c\<lparr>generated_function_cache :=
                                 (generated_function_cache c)(cache_key \<mapsto> generated_function)\<rparr>,
                             Suc n)))
        in case generated_function_cache c cache_key of
             Some g \<Rightarrow> Inr (g, (c, n))
           | None \<Rightarrow>
               (case co_new (f_code frame) of
                  Created \<Rightarrow> store (Func n name)
                | TypeErr \<Rightarrow>
                    if c_unknown c then store (Method n (c_id c))
                    else Inl (AttributeError ''unknown'')
                | OtherErr \<Rightarrow> Inl (NameError ''warnings'')))"

text \<open>The first half of \<open>collect\<close>: the unit the frame is resolved to.\<close>

definition collect_function ::
  "frame \<Rightarrow> collector \<times> nat \<Rightarrow> error + (callable \<times> (collector \<times> nat))" where
  "collect_function frame st =
     (case search_func (co_name (f_code frame)) frame of
        Some f \<Rightarrow> Inr (f, st)
      | None \<Rightarrow> create_function frame st)"

text \<open>\<open>self._coverage.add(location)\<close>: a Python set keeps the element it already holds
  when an equal one is added.\<close>

definition coverage_add :: "callable \<times> int \<Rightarrow> (callable \<times> int) set \<Rightarrow> (callable \<times> int) set" where
  "coverage_add loc cov =
     (if \<exists>l \<in> cov. py_eq (fst l) (fst loc) \<and> snd l = snd loc then cov else insert loc cov)"

definition collect :: "frame \<Rightarrow> string \<Rightarrow> collector \<times> nat \<Rightarrow> error + (collector \<times> nat)" where
  "collect frame event st =
     (case collect_function frame st of
        Inl e \<Rightarrow> Inl e
      | Inr (function, (c, n)) \<Rightarrow>
          Inr (c\<lparr>c_coverage := coverage_add (function, f_lineno frame) (c_coverage c)\<rparr>, n))"

definition coverage :: "collector \<Rightarrow> (callable \<times> int) set" where
  "coverage c = c_coverage c"

definition events :: "collector \<Rightarrow> (string \<times> int) set" where
  "events c = (\<lambda>(func, lineno). (name_of func, lineno)) ` c_coverage c"

fun join :: "string \<Rightarrow> string list \<Rightarrow> string" where
  "join sep [] = ''''"
| "join sep [x] = x"
| "join sep (x # y # ys) = x @ sep @ join sep (y # ys)"

text \<open>\<open>traceit\<close>: the loop over \<open>items_to_ignore\<close> returns at the first item that matches;
  \<open>first_call\<close> is the branch that records the first call.\<close>

definition ignores :: "ignore_item \<Rightarrow> frame \<Rightarrow> bool" where
  "ignores item frame =
     ((case item of
         IgnoreType t \<Rightarrow>
           (case map_of (f_locals frame) ''self'' of
              None \<Rightarrow> False
            | Some v \<Rightarrow> isinstance v t)
       | IgnoreCallable g \<Rightarrow> False)
      \<or> item_name item = co_name (f_code frame))"

definition first_call :: "frame \<Rightarrow> collector \<times> nat \<Rightarrow> error + (collector \<times> nat)" where
  "first_call frame st =
     (case create_function frame st of
        Inl e \<Rightarrow> Inl e
      | Inr (g, (c1, n1)) \<Rightarrow>
          Inr (c1\<lparr>c_function := Some g,
                  c_args := Some (f_locals frame),
                  c_argstring :=
                    Some (join '', ''
                           (map (\<lambda>(var, v). var @ ''='' @ py_repr v) (f_locals frame)))\<rparr>,
               n1))"

definition traceit :: "frame \<Rightarrow> string \<Rightarrow> collector \<times> nat \<Rightarrow> error + (collector \<times> nat)" where
  "traceit frame event st =
     (if list_ex (\<lambda>item. ignores item frame) (items_to_ignore (fst st)) then Inr st
      else if c_function (fst st) = None \<and> event = ''call'' then
             (case first_call frame st of
                Inl e \<Rightarrow> Inl e
              | Inr st1 \<Rightarrow> collect frame event st1)
           else collect frame event st)"

text \<open>\<open>_traceit\<close>, the callback installed with \<open>sys.settrace\<close>.\<close>

definition traceit_internal ::
  "frame \<Rightarrow> string \<Rightarrow> collector \<times> nat \<Rightarrow> error + (collector \<times> nat)" where
  "traceit_internal frame event st =
     (if our_frame (fst st) frame then Inr st else traceit frame event st)"

definition is_internal_error :: "collector \<Rightarrow> exc_info option \<Rightarrow> bool" where
  "is_internal_error c exc =
     (case exc of
        None \<Rightarrow> False
      | Some x \<Rightarrow> list_ex (our_frame c) (exc_traceback x))"

text \<open>\<open>__enter__\<close> and \<open>__exit__\<close> of the collector.  The second component is the global
  trace-callback slot (\<open>sys.gettrace\<close> / \<open>sys.settrace\<close>).  \<open>__exit__\<close> returns
  \<open>False\<close>, \<open>None\<close>, or raises.\<close>

definition collector_enter :: "collector \<Rightarrow> tracefn option \<Rightarrow> collector \<times> tracefn option" where
  "collector_enter c slot =
     (c\<lparr>original_trace_function := slot\<rparr>, Some (CollectorTraceit (c_id c)))"

definition collector_exit ::
  "collector \<Rightarrow> exc_info option \<Rightarrow> (error + bool option) \<times> tracefn option" where
  "collector_exit c exc =
     (let slot = original_trace_function c;
          ret = (if is_internal_error c exc then Some False else None)
      in if c_function c = None then
           (if exc \<noteq> None then (Inr (Some False), slot)
            else (Inl (ValueError ''No call collected''), slot))
         else (Inr ret, slot))"

definition argstring :: "collector \<Rightarrow> error + string" where
  "argstring c =
     (case c_argstring c of
        None \<Rightarrow> Inl (ValueError ''No call collected'')
      | Some s \<Rightarrow> if s = '''' then Inl (ValueError ''No call collected'') else Inr s)"

definition args :: "collector \<Rightarrow> error + (string \<times> pyval) list" where
  "args c =
     (case c_args c of
        None \<Rightarrow> Inl (ValueError ''No call collected'')
      | Some a \<Rightarrow> if a = [] then Inl (ValueError ''No call collected'') else Inr a)"

definition collector_function :: "collector \<Rightarrow> error + callable" where
  "collector_function c =
     (case c_function c of
        None \<Rightarrow> Inl (ValueError ''No call collected'')
      | Some f \<Rightarrow> Inr f)"

section \<open>The spectrum debuggers\<close>

text \<open>
  \<open>SpectrumDebugger\<close>, \<open>ContinuousSpectrumDebugger\<close> and \<open>TarantulaDebugger\<close> share the
  session protocol and the bookkeeping; the fractions come from the continuous debugger and
  \<open>rank\<close> from the Tarantula debugger.  The dictionary \<open>self.collectors\<close> keeps insertion
  order and holds references to collector objects: it is an association list of lists of
  object identities, and the objects live in the heap of the \<open>world\<close>, together with the
  global trace-callback slot and the next free object identity.  \<open>collector_class\<close> is
  the name of the collector class and \<open>collector_unknown\<close> says whether it defines
  \<open>unknown\<close>.  Python floats are idealised as rationals.
\<close>

record debugger =
  d_class :: string
  collector_class :: string
  collector_unknown :: bool
  collectors :: "(string \<times> nat list) list"
  d_collector :: "nat option"

record world =
  trace_slot :: "tracefn option"
  next_oid :: nat
  heap :: "nat \<Rightarrow> collector"

definition PASS :: string where
  "PASS = ''PASS''"

definition FAIL :: string where
  "FAIL = ''FAIL''"

definition new_debugger :: "string \<Rightarrow> string \<Rightarrow> bool \<Rightarrow> debugger" where
  "new_debugger cls ccls unk =
     \<lparr> d_class = cls, collector_class = ccls, collector_unknown = unk, collectors = [],
       d_collector = None \<rparr>"

definition add_collector :: "string \<Rightarrow> nat \<Rightarrow> debugger \<Rightarrow> debugger" where
  "add_collector outcome r d =
     (let cs = (if map_of (collectors d) outcome = None
                then collectors d @ [(outcome, [])] else collectors d)
      in d\<lparr>collectors := map (\<lambda>(k, l). if k = outcome then (k, l @ [r]) else (k, l)) cs\<rparr>)"

text \<open>\<open>all_events\<close>: \<open>if outcome:\<close> is false for \<open>None\<close> and for the empty string.\<close>

definition all_events :: "(nat \<Rightarrow> collector) \<Rightarrow> debugger \<Rightarrow> string option \<Rightarrow> (string \<times> int) set" where
  "all_events h d outcome =
     (if outcome \<noteq> None \<and> outcome \<noteq> Some [] then
        (case map_of (collectors d) (the outcome) of
           Some l \<Rightarrow> (\<Union>r \<in> set l. events (h r))
         | None \<Rightarrow> {})
      else (\<Union>l \<in> set (map snd (collectors d)). \<Union>r \<in> set l. events (h r)))"

definition all_fail_events :: "(nat \<Rightarrow> collector) \<Rightarrow> debugger \<Rightarrow> (string \<times> int) set" where
  "all_fail_events h d = all_events h d (Some FAIL)"

definition all_pass_events :: "(nat \<Rightarrow> collector) \<Rightarrow> debugger \<Rightarrow> (string \<times> int) set" where
  "all_pass_events h d = all_events h d (Some PASS)"

text \<open>\<open>collectors_with_event\<close> builds a Python set of collector objects, which are hashed
  by identity.\<close>

definition collectors_with_event ::
  "(nat \<Rightarrow> collector) \<Rightarrow> debugger \<Rightarrow> string \<times> int \<Rightarrow> string \<Rightarrow> error + nat set" where
  "collectors_with_event h d event category =
     (case map_of (collectors d) category of
        None \<Rightarrow> Inl (KeyError category)
      | Some all_runs \<Rightarrow> Inr (set (filter (\<lambda>r. event \<in> events (h r)) all_runs)))"

definition event_fraction ::
  "(nat \<Rightarrow> collector) \<Rightarrow> debugger \<Rightarrow> string \<times> int \<Rightarrow> string \<Rightarrow> error + rat" where
  "event_fraction h d event category =
     (case map_of (collectors d) category of
        None \<Rightarrow> Inr 0
      | Some all_collectors \<Rightarrow>
          (case collectors_with_event h d event category of
             Inl e \<Rightarrow> Inl e
           | Inr cwe \<Rightarrow>
               if length all_collectors = 0 then Inl ZeroDivisionError
               else Inr (of_nat (card cwe) / of_nat (length all_collectors))))"

definition passed_fraction :: "(nat \<Rightarrow> collector) \<Rightarrow> debugger \<Rightarrow> string \<times> int \<Rightarrow> error + rat" where
  "passed_fraction h d event = event_fraction h d event PASS"

definition failed_fraction :: "(nat \<Rightarrow> collector) \<Rightarrow> debugger \<Rightarrow> string \<times> int \<Rightarrow> error + rat" where
  "failed_fraction h d event = event_fraction h d event FAIL"

definition hue :: "(nat \<Rightarrow> collector) \<Rightarrow> debugger \<Rightarrow> string \<times> int \<Rightarrow> error + rat option" where
  "hue h d event =
     (case passed_fraction h d event of
        Inl e \<Rightarrow> Inl e
      | Inr passed \<Rightarrow>
          (case failed_fraction h d event of
             Inl e \<Rightarrow> Inl e
           | Inr failed \<Rightarrow>
               if passed + failed > 0 then Inr (Some (passed / (passed + failed)))
               else Inr None))"

definition suspiciousness :: "(nat \<Rightarrow> collector) \<Rightarrow> debugger \<Rightarrow> string \<times> int \<Rightarrow> error + rat option" where
  "suspiciousness h d event =
     (case hue h d event of
        Inl e \<Rightarrow> Inl e
      | Inr None \<Rightarrow> Inr None
      | Inr (Some hu) \<Rightarrow> Inr (Some (1 - hu)))"

text \<open>\<open>rank\<close>.  \<open>list(self.all_events())\<close> enumerates a Python set in an order the
  language does not fix: the enumeration \<open>evs\<close> is an argument.  \<open>sort\<close> calls the key
  function \<open>susp\<close> once on each element, which is where the assertion can fire, and is
  stable, also with \<open>reverse=True\<close>.\<close>

definition susp :: "(nat \<Rightarrow> collector) \<Rightarrow> debugger \<Rightarrow> string \<times> int \<Rightarrow> error + rat" where
  "susp h d event =
     (case suspiciousness h d event of
        Inl e \<Rightarrow> Inl e
      | Inr None \<Rightarrow> Inl AssertionError
      | Inr (Some s) \<Rightarrow> Inr s)"

fun sort_keys :: "(nat \<Rightarrow> collector) \<Rightarrow> debugger \<Rightarrow> (string \<times> int) list \<Rightarrow> error + rat list" where
  "sort_keys h d [] = Inr []"
| "sort_keys h d (e # es) =
     (case susp h d e of
        Inl er \<Rightarrow> Inl er
      | Inr k \<Rightarrow>
          (case sort_keys h d es of
             Inl er \<Rightarrow> Inl er
           | Inr ks \<Rightarrow> Inr (k # ks)))"

definition rank ::
  "(nat \<Rightarrow> collector) \<Rightarrow> debugger \<Rightarrow> (string \<times> int) list \<Rightarrow> error + (string \<times> int) list" where
  "rank h d evs =
     (case sort_keys h d evs of
        Inl er \<Rightarrow> Inl er
      | Inr ks \<Rightarrow> Inr (map snd (sort_key (\<lambda>p. - fst p) (zip ks evs))))"

text \<open>\<open>function\<close> of the debugger: the nested loops visit the collectors of every outcome
  in dictionary order; \<open>collector.function()\<close> may raise.\<close>

fun function_loop ::
  "(nat \<Rightarrow> collector) \<Rightarrow> nat list \<Rightarrow> string set \<times> callable list
     \<Rightarrow> error + (string set \<times> callable list)" where
  "function_loop h [] acc = Inr acc"
| "function_loop h (r # rs) (names_seen, functions) =
     (case collector_function (h r) of
        Inl e \<Rightarrow> Inl e
      | Inr func \<Rightarrow>
          if name_of func \<notin> names_seen
          then function_loop h rs (insert (name_of func) names_seen, functions @ [func])
          else function_loop h rs (names_seen, functions))"

definition debugger_function :: "(nat \<Rightarrow> collector) \<Rightarrow> debugger \<Rightarrow> error + callable option" where
  "debugger_function h d =
     (case function_loop h (concat (map snd (collectors d))) ({}, []) of
        Inl e \<Rightarrow> Inl e
      | Inr (names_seen, functions) \<Rightarrow>
          if length functions \<noteq> 1 then Inr None else Inr (Some (functions ! 0)))"

text \<open>\<open>collect\<close> of the debugger files a new collector before it has traced anything.\<close>

definition debugger_collect :: "string \<Rightarrow> debugger \<Rightarrow> world \<Rightarrow> nat \<times> debugger \<times> world" where
  "debugger_collect outcome d w =
     (let r = next_oid w;
          c = add_items_to_ignore [IgnoreType (d_class d)] (new_collector r (collector_class d) (collector_unknown d))
      in (r, add_collector outcome r d, w\<lparr>next_oid := Suc r, heap := (heap w)(r := c)\<rparr>))"

definition collect_pass :: "debugger \<Rightarrow> world \<Rightarrow> nat \<times> debugger \<times> world" where
  "collect_pass d w = debugger_collect PASS d w"

definition collect_fail :: "debugger \<Rightarrow> world \<Rightarrow> nat \<times> debugger \<times> world" where
  "collect_fail d w = debugger_collect FAIL d w"

subsection \<open>Sessions\<close>

definition debugger_enter :: "debugger \<Rightarrow> world \<Rightarrow> debugger \<times> world" where
  "debugger_enter d w =
     (let r = next_oid w;
          c = add_items_to_ignore [IgnoreType (d_class d)] (new_collector r (collector_class d) (collector_unknown d))
      in case collector_enter c (trace_slot w) of
           (c', slot) \<Rightarrow>
             (d\<lparr>d_collector := Some r\<rparr>,
              w\<lparr>trace_slot := slot, next_oid := Suc r, heap := (heap w)(r := c')\<rparr>))"

text \<open>\<open>__exit__\<close> of the debugger returns \<open>False\<close> or \<open>True\<close>, or raises what the
  collector's \<open>__exit__\<close> raises; without a preceding \<open>__enter__\<close> the attribute
  \<open>self.collector\<close> does not exist.\<close>

definition debugger_exit ::
  "debugger \<Rightarrow> exc_info option \<Rightarrow> world \<Rightarrow> (error + bool) \<times> debugger \<times> world" where
  "debugger_exit d exc w =
     (case d_collector d of
        None \<Rightarrow> (Inl (AttributeError ''collector''), d, w)
      | Some r \<Rightarrow>
          (case collector_exit (heap w r) exc of
             (res, slot) \<Rightarrow>
               let w' = w\<lparr>trace_slot := slot\<rparr>
               in case res of
                    Inl e \<Rightarrow> (Inl e, d, w')
                  | Inr status \<Rightarrow>
                      if status = None then
                        (let outcome = (if exc = None then PASS else FAIL)
                         in (Inr True, add_collector outcome r d, w'))
                      else (Inr False, d, w')))"

text \<open>
  The runtime around a session.  While the block of a \<open>with\<close> statement runs, the
  interpreter hands every trace event \<open>(frame, event)\<close> to the callback of the session's
  collector; a block is the list of these events together with the exception that leaves
  it, if any.  When the callback raises, the interpreter unsets the trace function and
  raises the error in the traced code: no further event is delivered, and \<open>run_block\<close>
  returns the state at that point together with the error.  The \<open>with\<close> statement ends
  normally when the block raised nothing or \<open>__exit__\<close> returned a true value, passes the
  block's exception on when \<open>__exit__\<close> returned a false value, and raises what
  \<open>__exit__\<close> raises.
\<close>

fun run_block ::
  "(frame \<times> string) list \<Rightarrow> collector \<times> nat \<Rightarrow> (collector \<times> nat) \<times> error option" where
  "run_block [] st = (st, None)"
| "run_block (ev # evs) st =
     (case traceit_internal (fst ev) (snd ev) st of
        Inl e \<Rightarrow> (st, Some e)
      | Inr st' \<Rightarrow> run_block evs st')"

definition trace_block :: "nat \<Rightarrow> (frame \<times> string) list \<Rightarrow> world \<Rightarrow> world" where
  "trace_block r evs w =
     (case run_block evs (heap w r, next_oid w) of
        ((c, n), raised) \<Rightarrow>
          w\<lparr>trace_slot := (if raised = None then trace_slot w else None),
            next_oid := n, heap := (heap w)(r := c)\<rparr>)"

datatype with_result = Normal | Propagates exc_info | Raises error

definition with_exit :: "exc_info option \<Rightarrow> error + bool \<Rightarrow> with_result" where
  "with_exit exc res =
     (case res of
        Inl e \<Rightarrow> Raises e
      | Inr b \<Rightarrow>
          (case exc of
             None \<Rightarrow> Normal
           | Some x \<Rightarrow> if b then Normal else Propagates x))"

text \<open>\<open>with debugger: block\<close>.\<close>

definition session ::
  "debugger \<Rightarrow> world \<Rightarrow> (frame \<times> string) list \<Rightarrow> exc_info option
     \<Rightarrow> with_result \<times> debugger \<times> world" where
  "session d w evs exc =
     (case debugger_enter d w of
        (d1, w1) \<Rightarrow>
          (case debugger_exit d1 exc (trace_block (the (d_collector d1)) evs w1) of
             (res, d2, w2) \<Rightarrow> (with_exit exc res, d2, w2)))"

text \<open>\<open>with debugger.collect(outcome): block\<close>, the session with a given outcome: the
  collector is filed when \<open>collect\<close> creates it, and the \<open>with\<close> statement runs the
  collector's own \<open>__enter__\<close> and \<open>__exit__\<close>, which returns \<open>None\<close> or \<open>False\<close>.\<close>

definition collect_session ::
  "string \<Rightarrow> debugger \<Rightarrow> world \<Rightarrow> (frame \<times> string) list \<Rightarrow> exc_info option
     \<Rightarrow> with_result \<times> debugger \<times> world" where
  "collect_session outcome d w evs exc =
     (case debugger_collect outcome d w of
        (r, d1, w1) \<Rightarrow>
          (case collector_enter (heap w1 r) (trace_slot w1) of
             (c, slot) \<Rightarrow>
               let w2 = trace_block r evs (w1\<lparr>trace_slot := slot, heap := (heap w1)(r := c)\<rparr>)
               in case collector_exit (heap w2 r) exc of
                    (res, slot') \<Rightarrow>
                      (with_exit exc (map_sum id (\<lambda>b. b = Some True) res), d1,
                       w2\<lparr>trace_slot := slot'\<rparr>)))"

section \<open>Vocabulary of the properties\<close>

text \<open>The collectors filed under an outcome, and all filed collectors in the order in which
  the debugger visits them.\<close>

definition filed :: "debugger \<Rightarrow> string \<Rightarrow> nat list" where
  "filed d outcome = (case map_of (collectors d) outcome of None \<Rightarrow> [] | Some l \<Rightarrow> l)"

definition all_filed :: "debugger \<Rightarrow> nat list" where
  "all_filed d = concat (map snd (collectors d))"

text \<open>The states of a debugger: \<open>self.collectors\<close> is written by \<open>add_collector\<close> only, and
  \<open>self.collector\<close> by \<open>__enter__\<close>.\<close>

inductive reachable :: "debugger \<Rightarrow> bool" where
  init: "reachable (new_debugger cls ccls unk)"
| filing: "reachable d \<Longrightarrow> reachable (add_collector outcome r d)"
| entering: "reachable d \<Longrightarrow> reachable (d\<lparr>d_collector := x\<rparr>)"

definition lists_nonempty :: "debugger \<Rightarrow> bool" where
  "lists_nonempty d = (\<forall>l \<in> set (map snd (collectors d)). l \<noteq> [])"

text \<open>A frame qualifies for a collector when \<open>_traceit\<close> and \<open>traceit\<close> let it through to
  \<open>collect\<close>; a block contains a qualifying call when one of its events is a \<open>call\<close> on such
  a frame.\<close>

definition qualifying :: "collector \<Rightarrow> frame \<Rightarrow> bool" where
  "qualifying c frame =
     (\<not> our_frame c frame \<and> \<not> list_ex (\<lambda>item. ignores item frame) (items_to_ignore c))"

definition call_in :: "collector \<Rightarrow> (frame \<times> string) list \<Rightarrow> bool" where
  "call_in c evs = list_ex (\<lambda>(frame, event). event = ''call'' \<and> qualifying c frame) evs"

text \<open>What a trace step may change in a collector.\<close>

definition grows :: "collector \<Rightarrow> collector \<Rightarrow> bool" where
  "grows c c' =
     (c_id c' = c_id c \<and> c_class c' = c_class c \<and> items_to_ignore c' = items_to_ignore c
      \<and> original_trace_function c' = original_trace_function c
      \<and> generated_function_cache c \<subseteq>\<^sub>m generated_function_cache c'
      \<and> c_unknown c' = c_unknown c
      \<and> c_coverage c \<subseteq> c_coverage c'
      \<and> (finite (c_coverage c) \<longrightarrow> finite (c_coverage c'))
      \<and> (c_function c \<noteq> None \<longrightarrow> c_function c' = c_function c))"

text \<open>The collector that \<open>__enter__\<close> of the debugger creates for a session, before its
  own \<open>__enter__\<close> runs.\<close>

definition session_collector :: "debugger \<Rightarrow> world \<Rightarrow> collector" where
  "session_collector d w =
     add_items_to_ignore [IgnoreType (d_class d)]
       (new_collector (next_oid w) (collector_class d) (collector_unknown d))"

text \<open>The names of the first-call units of the filed collectors.\<close>

definition unit_names :: "(nat \<Rightarrow> collector) \<Rightarrow> debugger \<Rightarrow> string set" where
  "unit_names h d = (\<lambda>r. name_of (the (c_function (h r)))) ` set (all_filed d)"

text \<open>A sequence of sessions of one debugger; each block is its trace events and the
  exception that leaves it, if any.\<close>

fun sessions ::
  "((frame \<times> string) list \<times> exc_info option) list \<Rightarrow> debugger \<times> world \<Rightarrow> debugger \<times> world" where
  "sessions [] dw = dw"
| "sessions ((evs, exc) # blocks) (d, w) =
     (case session d w evs exc of (res, d', w') \<Rightarrow> sessions blocks (d', w'))"

definition well_filed :: "debugger \<Rightarrow> bool" where
  "well_filed d =
     (distinct (map fst (collectors d)) \<and> lists_nonempty d
      \<and> (\<forall>k \<in> set (map fst (collectors d)). k = PASS \<or> k = FAIL))"

text \<open>The trace of a session of the debugger: the state of its collector when the block
  ends, and the error that stopped the tracing, if any.  The collector has recorded a first
  call when its \<open>_function\<close> is set at that point.\<close>

definition session_trace ::
  "debugger \<Rightarrow> world \<Rightarrow> (frame \<times> string) list \<Rightarrow> (collector \<times> nat) \<times> error option" where
  "session_trace d w evs =
     run_block evs ((session_collector d w)\<lparr>original_trace_function := trace_slot w\<rparr>,
                    Suc (next_oid w))"

definition call_recorded :: "debugger \<Rightarrow> world \<Rightarrow> (frame \<times> string) list \<Rightarrow> bool" where
  "call_recorded d w evs = (c_function (fst (fst (session_trace d w evs))) \<noteq> None)"

section \<open>Concrete runs\<close>

text \<open>A function \<open>f\<close> defined at line 10 and a function \<open>g\<close> defined at line 20, neither
  bound in any enclosing scope of its frames; a collector and a debugger of
  \<open>debugger classes\<close>, whose collector class does not define \<open>unknown\<close>, and an empty
  world.\<close>

definition code_f :: code where
  "code_f = \<lparr> co_id = 1, co_name = ''f'', co_new = Created \<rparr>"

definition code_g :: code where
  "code_g = \<lparr> co_id = 2, co_name = ''g'', co_new = Created \<rparr>"

definition frame_f :: "int \<Rightarrow> frame" where
  "frame_f lineno = Frame code_f lineno [(''x'', PyData ''1'')] [] None"

definition frame_g :: "int \<Rightarrow> frame" where
  "frame_g lineno = Frame code_g lineno [] [] None"

definition block_f :: "(frame \<times> string) list" where
  "block_f = [(frame_f 10, ''call''), (frame_f 11, ''line''), (frame_f 11, ''return'')]"

definition block_g :: "(frame \<times> string) list" where
  "block_g = [(frame_g 20, ''call''), (frame_g 21, ''line''), (frame_g 21, ''return'')]"

definition collector0 :: collector where
  "collector0 = new_collector 0 ''CoverageCollector'' False"

definition debugger0 :: debugger where
  "debugger0 = new_debugger ''SpectrumDebugger'' ''CoverageCollector'' False"

definition world0 :: world where
  "world0 = \<lparr> trace_slot = Some (OtherTrace 0), next_oid = 2, heap = (\<lambda>r. collector0) \<rparr>"

text \<open>Three collectors with their coverage written out, two filed under \<open>PASS\<close> and one under
  \<open>FAIL\<close>.\<close>

definition heap1 :: "nat \<Rightarrow> collector" where
  "heap1 = (\<lambda>r. collector0)
     (2 := collector0\<lparr>c_id := 2, c_coverage := {(Func 5 ''f'', 10), (Func 5 ''f'', 11)}\<rparr>,
      3 := collector0\<lparr>c_id := 3, c_coverage := {(Func 6 ''f'', 10), (Func 6 ''f'', 12)}\<rparr>,
      4 := collector0\<lparr>c_id := 4, c_coverage := {(Func 7 ''f'', 10)}\<rparr>)"

definition debugger1 :: debugger where
  "debugger1 = add_collector FAIL 3 (add_collector PASS 4 (add_collector PASS 2 debugger0))"

text \<open>A fault raised in module-level code, and a fault whose traceback passes through a
  method of the collector.\<close>

definition frame_module :: frame where
  "frame_module =
     Frame \<lparr> co_id = 0, co_name = ''<module>'', co_new = Created \<rparr> 30 [] [] None"

definition frame_tracer :: frame where
  "frame_tracer =
     Frame \<lparr> co_id = 9, co_name = ''collect'', co_new = Created \<rparr> 160
       [(''self'', PyInst [''CoverageCollector''])] [] (Some frame_module)"

definition fault1 :: exc_info where
  "fault1 = \<lparr> exc_tp = ''ZeroDivisionError'', exc_traceback = [frame_module] \<rparr>"

definition fault2 :: exc_info where
  "fault2 = \<lparr> exc_tp = ''TypeError'', exc_traceback = [frame_module, frame_tracer] \<rparr>"

text \<open>Two sessions on the differently named functions \<open>f\<close> and \<open>g\<close>, and then a
  collector filed with \<open>collect_pass\<close> that is never run.\<close>

definition state2 :: "debugger \<times> world" where
  "state2 = sessions [(block_f, None), (block_g, None)] (debugger0, world0)"

definition state3 :: "nat \<times> debugger \<times> world" where
  "state3 = collect_pass (fst state2) (snd state2)"

text \<open>A passing run of \<open>f\<close> through line 11 and a failing run through line 12, under a
  debugger of \<open>TarantulaDebugger.py\<close>, whose collector class defines \<open>unknown\<close>.\<close>

definition block_f_fail :: "(frame \<times> string) list" where
  "block_f_fail = [(frame_f 10, ''call''), (frame_f 12, ''line''), (frame_f 12, ''exception'')]"

definition tarantula0 :: debugger where
  "tarantula0 = new_debugger ''TarantulaDebugger'' ''CoverageCollector'' True"

definition state4 :: "debugger \<times> world" where
  "state4 = sessions [(block_f, None), (block_f_fail, Some fault1)] (tarantula0, world0)"

text \<open>A list comprehension at line 11 of \<open>f\<close> that reads a local variable of \<open>f\<close>: its
  code object has a free variable, so \<open>FunctionType\<close> raises \<open>TypeError\<close>, and no scope
  binds its name.  And a block of \<open>f\<close> that runs it.\<close>

definition frame_listcomp :: frame where
  "frame_listcomp =
     Frame \<lparr> co_id = 3, co_name = ''<listcomp>'', co_new = TypeErr \<rparr> 11
       [(''.0'', PyData ''<list_iterator>'')] [] (Some (frame_f 11))"

definition block_listcomp :: "(frame \<times> string) list" where
  "block_listcomp =
     [(frame_f 10, ''call''), (frame_f 11, ''line''), (frame_listcomp, ''call''),
      (frame_listcomp, ''line''), (frame_listcomp, ''return''), (frame_f 11, ''return'')]"

section \<open>Fractions and suspiciousness\<close>

lemma map_of_add_collector:
  "map_of (collectors (add_collector outcome r d)) k =
     (if k = outcome then Some (filed d outcome @ [r]) else map_of (collectors d) k)"
proof -
  have upd: "map_of (map (\<lambda>(k, l). if k = outcome then (k, l @ [r]) else (k, l)) cs) k =
        (if k = outcome then map_option (\<lambda>l. l @ [r]) (map_of cs k) else map_of cs k)" for cs
    by (induction cs) auto
  show ?thesis
  proof (cases "map_of (collectors d) outcome")
    case None
    have app: "map_of (collectors d @ [(outcome, [])]) k' =
            (if k' = outcome then Some [] else map_of (collectors d) k')" for k'
      using None by (auto simp: map_add_def split: option.splits)
    have "collectors (add_collector outcome r d) =
            map (\<lambda>(k, l). if k = outcome then (k, l @ [r]) else (k, l))
              (collectors d @ [(outcome, [])])"
      using None by (simp add: add_collector_def)
    then have "map_of (collectors (add_collector outcome r d)) k =
            (if k = outcome
             then map_option (\<lambda>l. l @ [r]) (map_of (collectors d @ [(outcome, [])]) k)
             else map_of (collectors d @ [(outcome, [])]) k)"
      by (simp only: upd)
    then show ?thesis
      using None by (simp add: app filed_def del: map_of_append)
  next
    case (Some l)
    then show ?thesis
      by (simp add: add_collector_def filed_def upd)
  qed
qed

lemma filed_add_collector:
  "filed (add_collector outcome r d) k = (if k = outcome then filed d outcome @ [r] else filed d k)"
  by (simp add: filed_def map_of_add_collector)

lemma lists_nonempty_add: "lists_nonempty d \<Longrightarrow> lists_nonempty (add_collector outcome r d)"
  by (auto simp: lists_nonempty_def add_collector_def Let_def split: if_splits)

lemma reachable_lists_nonempty: "reachable d \<Longrightarrow> lists_nonempty d"
proof (induction rule: reachable.induct)
  case (init cls ccls unk)
  show ?case by (simp add: lists_nonempty_def new_debugger_def)
next
  case (filing d outcome r)
  then show ?case by (simp add: lists_nonempty_add)
next
  case (entering d x)
  then show ?case by (simp add: lists_nonempty_def)
qed

lemma lists_nonempty_lookup:
  "lists_nonempty d \<Longrightarrow> map_of (collectors d) k = Some l \<Longrightarrow> l \<noteq> []"
  by (auto simp: lists_nonempty_def dest!: map_of_SomeD)

lemma event_fraction_value:
  assumes "lists_nonempty d"
  shows "event_fraction h d e k =
           Inr (if filed d k = [] then 0
                else of_nat (card {r \<in> set (filed d k). e \<in> events (h r)})
                       / of_nat (length (filed d k)))"
proof (cases "map_of (collectors d) k")
  case None
  then show ?thesis by (simp add: event_fraction_def filed_def)
next
  case (Some l)
  with assms have "l \<noteq> []" by (rule lists_nonempty_lookup)
  moreover have "set (filter (\<lambda>r. e \<in> events (h r)) l) = {r \<in> set l. e \<in> events (h r)}"
    by auto
  ultimately show ?thesis using Some
    by (simp add: event_fraction_def collectors_with_event_def filed_def)
qed

lemma card_with_event_le: "card {r \<in> set l. P r} \<le> length l"
proof -
  have "card {r \<in> set l. P r} \<le> card (set l)"
    by (rule card_mono) auto
  also have "\<dots> \<le> length l" by (rule card_length)
  finally show ?thesis .
qed

lemma fraction_bounds:
  "l \<noteq> [] \<Longrightarrow> 0 \<le> (of_nat (card {r \<in> set l. P r}) / of_nat (length l) :: rat)
     \<and> (of_nat (card {r \<in> set l. P r}) / of_nat (length l) :: rat) \<le> 1"
  using card_with_event_le [of l P] by (simp add: divide_le_eq_1)

lemma fraction_zero_iff:
  "l \<noteq> [] \<Longrightarrow> ((of_nat (card {r \<in> set l. P r}) / of_nat (length l) :: rat) = 0) = (\<forall>r \<in> set l. \<not> P r)"
  by (auto simp: card_eq_0_iff)

text \<open>
  C4.  In every state of the debugger and for every event and outcome label,
  \<open>event_fraction\<close> returns normally; its value lies between 0 and 1, is 0 when no
  collector is filed under the label, and otherwise is the number of collectors filed under
  the label whose events contain the event, divided by the number of collectors filed under
  the label.  The numerator counts collector objects (the source builds a set of them); when
  no collector is filed twice under the label it is the number of entries of the list.
\<close>

theorem event_fraction_spec:
  assumes "reachable d"
  shows "\<exists>q. event_fraction h d e outcome = Inr q \<and> 0 \<le> q \<and> q \<le> 1
           \<and> (filed d outcome = [] \<longrightarrow> q = 0)
           \<and> (filed d outcome \<noteq> [] \<longrightarrow>
                q = of_nat (card {r \<in> set (filed d outcome). e \<in> events (h r)})
                      / of_nat (length (filed d outcome)))
           \<and> (distinct (filed d outcome) \<longrightarrow>
                card {r \<in> set (filed d outcome). e \<in> events (h r)}
                  = length (filter (\<lambda>r. e \<in> events (h r)) (filed d outcome)))"
proof -
  have ne: "lists_nonempty d" using assms by (rule reachable_lists_nonempty)
  have dist: "distinct l \<Longrightarrow> card {r \<in> set l. P r} = length (filter P l)" for l :: "nat list" and P
  proof -
    assume "distinct l"
    then have "distinct (filter P l)" by simp
    then have "card (set (filter P l)) = length (filter P l)" by (rule distinct_card)
    moreover have "set (filter P l) = {r \<in> set l. P r}" by auto
    ultimately show ?thesis by simp
  qed
  show ?thesis
    using event_fraction_value [OF ne, of h e outcome]
          fraction_bounds [of "filed d outcome" "\<lambda>r. e \<in> events (h r)"]
    by (auto simp: dist)
qed

lemma event_fraction_zero_iff:
  assumes "lists_nonempty d" and "event_fraction h d e k = Inr q"
  shows "(q = 0) = (\<forall>r \<in> set (filed d k). e \<notin> events (h r))"
proof (cases "filed d k = []")
  case True
  then show ?thesis
    using assms event_fraction_value [OF assms(1), of h e k] by simp
next
  case False
  then show ?thesis
    using assms(2) event_fraction_value [OF assms(1), of h e k]
          fraction_zero_iff [OF False, of "\<lambda>r. e \<in> events (h r)"]
    by simp
qed

lemma suspiciousness_value:
  assumes "event_fraction h d e PASS = Inr passed" and "event_fraction h d e FAIL = Inr failed"
    and "0 \<le> passed" and "0 \<le> failed"
  shows "suspiciousness h d e =
           Inr (if passed + failed = 0 then None else Some (1 - passed / (passed + failed)))"
  using assms
  by (auto simp: suspiciousness_def hue_def passed_fraction_def failed_fraction_def)

lemma tarantula_bounds:
  fixes passed failed :: rat
  assumes "0 \<le> passed" and "0 \<le> failed" and "passed + failed \<noteq> 0"
  shows "0 \<le> 1 - passed / (passed + failed)" and "1 - passed / (passed + failed) \<le> 1"
proof -
  have pos: "0 < passed + failed" using assms by linarith
  then have "passed / (passed + failed) \<le> 1"
    using assms(2) by (simp add: divide_le_eq_1)
  then show "0 \<le> 1 - passed / (passed + failed)" by simp
  have "0 \<le> passed / (passed + failed)"
    using assms(1) pos by simp
  then show "1 - passed / (passed + failed) \<le> 1" by simp
qed

text \<open>
  C1.  In every state of the debugger, with \<open>passed\<close> and \<open>failed\<close> the fractions of
  the event under \<open>PASS\<close> and \<open>FAIL\<close>: \<open>suspiciousness\<close> is \<open>None\<close> when
  \<open>passed + failed = 0\<close> and \<open>1 - passed / (passed + failed)\<close> otherwise; a defined value
  lies between 0 and 1; it is 1 for an event in every failing and no passing run, and 0 for
  an event in no failing and every passing run; and it is defined exactly when some
  collector filed under \<open>PASS\<close> or \<open>FAIL\<close> observed the event.
\<close>

theorem suspiciousness_spec:
  assumes "reachable d"
  shows "\<exists>passed failed.
           event_fraction h d e PASS = Inr passed \<and> event_fraction h d e FAIL = Inr failed
         \<and> suspiciousness h d e =
             Inr (if passed + failed = 0 then None else Some (1 - passed / (passed + failed)))
         \<and> (\<forall>s. suspiciousness h d e = Inr (Some s) \<longrightarrow> 0 \<le> s \<and> s \<le> 1)
         \<and> (failed = 1 \<and> passed = 0 \<longrightarrow> suspiciousness h d e = Inr (Some 1))
         \<and> (failed = 0 \<and> passed = 1 \<longrightarrow> suspiciousness h d e = Inr (Some 0))
         \<and> ((suspiciousness h d e \<noteq> Inr None) =
              (\<exists>r \<in> set (filed d PASS) \<union> set (filed d FAIL). e \<in> events (h r)))"
proof -
  have ne: "lists_nonempty d" using assms by (rule reachable_lists_nonempty)
  obtain passed where p: "event_fraction h d e PASS = Inr passed"
    using event_fraction_value [OF ne] by blast
  obtain failed where f: "event_fraction h d e FAIL = Inr failed"
    using event_fraction_value [OF ne] by blast
  have p0: "0 \<le> passed"
    using p event_fraction_value [OF ne, of h e PASS]
          fraction_bounds [of "filed d PASS" "\<lambda>r. e \<in> events (h r)"]
    by (auto split: if_splits)
  have f0: "0 \<le> failed"
    using f event_fraction_value [OF ne, of h e FAIL]
          fraction_bounds [of "filed d FAIL" "\<lambda>r. e \<in> events (h r)"]
    by (auto split: if_splits)
  have val: "suspiciousness h d e =
           Inr (if passed + failed = 0 then None else Some (1 - passed / (passed + failed)))"
    using p f p0 f0 by (rule suspiciousness_value)
  have bounds: "\<forall>s. suspiciousness h d e = Inr (Some s) \<longrightarrow> 0 \<le> s \<and> s \<le> 1"
    using val tarantula_bounds [OF p0 f0] by (auto split: if_splits)
  have zero: "(passed + failed = 0) = (passed = 0 \<and> failed = 0)"
    using p0 f0 by linarith
  have seen: "(suspiciousness h d e \<noteq> Inr None) =
              (\<exists>r \<in> set (filed d PASS) \<union> set (filed d FAIL). e \<in> events (h r))"
    using val zero event_fraction_zero_iff [OF ne p] event_fraction_zero_iff [OF ne f]
    by auto
  have fail_only: "failed = 1 \<and> passed = 0 \<longrightarrow> suspiciousness h d e = Inr (Some 1)"
    using val by simp
  have pass_only: "failed = 0 \<and> passed = 1 \<longrightarrow> suspiciousness h d e = Inr (Some 0)"
    using val by simp
  show ?thesis
    using p f val bounds fail_only pass_only seen by blast
qed

lemma reachable_debugger1: "reachable debugger1"
  unfolding debugger1_def debugger0_def by (intro reachable.intros)

lemma filed_new_debugger: "filed (new_debugger cls ccls unk) k = []"
  by (simp add: filed_def new_debugger_def)

lemma card_filter_conv: "card {r \<in> set l. P r} = length (remdups (filter P l))"
proof -
  have "{r \<in> set l. P r} = set (filter P l)" by auto
  then have "card {r \<in> set l. P r} = card (set (filter P l))" by (rule arg_cong)
  then show ?thesis by (simp only: card_set)
qed

lemma filed_debugger1:
  "filed debugger1 PASS = [2, 4]" "filed debugger1 FAIL = [3]" "filed debugger1 ''SKIP'' = []"
  by (simp_all add: debugger1_def debugger0_def filed_add_collector filed_new_debugger
        PASS_def FAIL_def)

lemma events_heap1:
  "events (heap1 2) = {(''f'', 10), (''f'', 11)}"
  "events (heap1 3) = {(''f'', 10), (''f'', 12)}"
  "events (heap1 4) = {(''f'', 10)}"
  by (simp_all add: heap1_def events_def)

theorem event_fraction_spec_witness:
  "reachable debugger1 \<and> distinct (filed debugger1 PASS)
     \<and> event_fraction heap1 debugger1 (''f'', 11) PASS = Inr (1 / 2)
     \<and> event_fraction heap1 debugger1 (''f'', 11) ''SKIP'' = Inr 0"
proof -
  show ?thesis
    using event_fraction_spec [OF reachable_debugger1, of heap1 "(''f'', 11)" PASS,
            unfolded card_filter_conv]
          event_fraction_spec [OF reachable_debugger1, of heap1 "(''f'', 11)" "''SKIP''"]
    by (auto simp: reachable_debugger1 filed_debugger1 events_heap1)
qed

theorem suspiciousness_spec_witness:
  "reachable debugger1
     \<and> suspiciousness heap1 debugger1 (''f'', 12) = Inr (Some 1)
     \<and> suspiciousness heap1 debugger1 (''f'', 11) = Inr (Some 0)
     \<and> suspiciousness heap1 debugger1 (''f'', 10) = Inr (Some (1 / 2))
     \<and> suspiciousness heap1 debugger1 (''f'', 13) = Inr None"
proof -
  have p: "event_fraction heap1 debugger1 (''f'', 12) PASS = Inr 0"
          "event_fraction heap1 debugger1 (''f'', 11) PASS = Inr (1 / 2)"
          "event_fraction heap1 debugger1 (''f'', 10) PASS = Inr 1"
          "event_fraction heap1 debugger1 (''f'', 13) PASS = Inr 0"
    by (simp_all only: event_fraction_value [OF reachable_lists_nonempty [OF reachable_debugger1]]
          card_filter_conv)
       (simp_all add: filed_debugger1 events_heap1)
  have f: "event_fraction heap1 debugger1 (''f'', 12) FAIL = Inr 1"
          "event_fraction heap1 debugger1 (''f'', 11) FAIL = Inr 0"
          "event_fraction heap1 debugger1 (''f'', 10) FAIL = Inr 1"
          "event_fraction heap1 debugger1 (''f'', 13) FAIL = Inr 0"
    by (simp_all only: event_fraction_value [OF reachable_lists_nonempty [OF reachable_debugger1]]
          card_filter_conv)
       (simp_all add: filed_debugger1 events_heap1)
  show ?thesis
    using suspiciousness_spec [OF reachable_debugger1, of heap1 "(''f'', 12)"]
          suspiciousness_spec [OF reachable_debugger1, of heap1 "(''f'', 11)"]
          suspiciousness_spec [OF reachable_debugger1, of heap1 "(''f'', 10)"]
          suspiciousness_spec [OF reachable_debugger1, of heap1 "(''f'', 13)"]
    by (auto simp: p f reachable_debugger1)
qed

section \<open>Trace steps of a collector\<close>

lemma grows_refl: "grows c c"
  by (simp add: grows_def)

lemma grows_trans: "grows a b \<Longrightarrow> grows b c \<Longrightarrow> grows a c"
  unfolding grows_def by (auto intro: map_le_trans)

lemma py_eq_name: "py_eq f g \<Longrightarrow> name_of f = name_of g"
  by (cases f; cases g) auto

lemma create_function_grows:
  "create_function frame st = Inr (g, st') \<Longrightarrow> grows (fst st) (fst st')"
  by (cases st)
     (auto simp: create_function_def grows_def Let_def map_le_def
           split: option.splits new_result.splits if_splits)

lemma create_function_cached:
  "create_function frame st = Inr (g, st') \<Longrightarrow>
     generated_function_cache (fst st') (co_name (f_code frame), f_lineno frame) = Some g"
  by (cases st)
     (auto simp: create_function_def Let_def split: option.splits new_result.splits if_splits)

lemma create_function_hit:
  "generated_function_cache (fst st) (co_name (f_code frame), f_lineno frame) = Some g \<Longrightarrow>
     create_function frame st = Inr (g, st)"
  by (cases st) (auto simp: create_function_def Let_def)

lemma create_function_raises:
  "create_function frame st = Inl e \<Longrightarrow>
     generated_function_cache (fst st) (co_name (f_code frame), f_lineno frame) = None
     \<and> ((co_new (f_code frame) = TypeErr \<and> \<not> c_unknown (fst st) \<and> e = AttributeError ''unknown'')
        \<or> (co_new (f_code frame) = OtherErr \<and> e = NameError ''warnings''))"
  by (cases st)
     (auto simp: create_function_def Let_def split: option.splits new_result.splits if_splits)

lemma collect_function_grows:
  "collect_function frame st = Inr (f, st') \<Longrightarrow> grows (fst st) (fst st')"
  by (auto simp: collect_function_def grows_refl create_function_grows split: option.splits)

lemma coverage_add_sub: "cov \<subseteq> coverage_add loc cov"
  by (auto simp: coverage_add_def)

lemma coverage_add_finite: "finite cov \<Longrightarrow> finite (coverage_add loc cov)"
  by (auto simp: coverage_add_def)

lemma coverage_add_event:
  "(name_of (fst loc), snd loc) \<in> (\<lambda>(func, lineno). (name_of func, lineno)) ` coverage_add loc cov"
proof (cases "\<exists>l \<in> cov. py_eq (fst l) (fst loc) \<and> snd l = snd loc")
  case True
  then obtain l where l: "l \<in> cov" "py_eq (fst l) (fst loc)" "snd l = snd loc" by blast
  then have "(\<lambda>(func, lineno). (name_of func, lineno)) l = (name_of (fst loc), snd loc)"
    by (cases l) (simp add: py_eq_name)
  moreover have "coverage_add loc cov = cov" using True unfolding coverage_add_def by (rule if_P)
  ultimately show ?thesis using l(1) by (metis image_eqI)
next
  case False
  then have "coverage_add loc cov = insert loc cov" unfolding coverage_add_def by (rule if_not_P)
  moreover have "(\<lambda>(func, lineno). (name_of func, lineno)) loc = (name_of (fst loc), snd loc)"
    by (cases loc) simp
  ultimately show ?thesis by (metis image_eqI insertI1)
qed

lemma collect_cases:
  assumes "collect frame event st = Inr st'"
  obtains f c n where "collect_function frame st = Inr (f, (c, n))"
    and "st' = (c\<lparr>c_coverage := coverage_add (f, f_lineno frame) (c_coverage c)\<rparr>, n)"
  using assms by (auto simp: collect_def split: sum.splits prod.splits)

lemma collect_raises:
  "(collect frame event st = Inl e) = (collect_function frame st = Inl e)"
  by (auto simp: collect_def split: sum.splits prod.splits)

lemma collect_grows:
  assumes "collect frame event st = Inr st'"
  shows "grows (fst st) (fst st')"
proof -
  obtain f c n where cf: "collect_function frame st = Inr (f, (c, n))"
    and st': "st' = (c\<lparr>c_coverage := coverage_add (f, f_lineno frame) (c_coverage c)\<rparr>, n)"
    using assms by (rule collect_cases)
  have "grows (fst st) c" using collect_function_grows [OF cf] by simp
  moreover have "grows c (c\<lparr>c_coverage := coverage_add (f, f_lineno frame) (c_coverage c)\<rparr>)"
    using coverage_add_sub by (auto simp: grows_def coverage_add_finite)
  ultimately show ?thesis
    unfolding st' by (auto intro: grows_trans)
qed

lemma collect_event:
  assumes "collect frame event st = Inr st'"
  shows "\<exists>f st1. collect_function frame st = Inr (f, st1)
           \<and> (name_of f, f_lineno frame) \<in> events (fst st')"
proof -
  obtain f c n where cf: "collect_function frame st = Inr (f, (c, n))"
    and st': "st' = (c\<lparr>c_coverage := coverage_add (f, f_lineno frame) (c_coverage c)\<rparr>, n)"
    using assms by (rule collect_cases)
  have "(name_of f, f_lineno frame) \<in> events (fst st')"
    unfolding st' using coverage_add_event [of "(f, f_lineno frame)" "c_coverage c"]
    by (simp add: events_def)
  then show ?thesis using cf by blast
qed

lemma events_mono: "grows c c' \<Longrightarrow> events c \<subseteq> events c'"
  by (auto simp: grows_def events_def)

lemma qualifying_grows:
  assumes "grows c c'"
  shows "qualifying c' frame = qualifying c frame"
proof -
  have a: "c_class c' = c_class c" and b: "items_to_ignore c' = items_to_ignore c"
    using assms by (simp_all add: grows_def)
  show ?thesis unfolding qualifying_def our_frame_def a b by (rule refl)
qed

lemma first_call_cases:
  assumes "first_call frame st = Inr st'"
  obtains g c1 n1 where "create_function frame st = Inr (g, (c1, n1))"
    and "st' = (c1\<lparr>c_function := Some g, c_args := Some (f_locals frame),
                   c_argstring := Some (join '', ''
                     (map (\<lambda>(var, v). var @ ''='' @ py_repr v) (f_locals frame)))\<rparr>, n1)"
  using assms by (auto simp: first_call_def split: sum.splits prod.splits)

lemma first_call_grows:
  assumes "c_function (fst st) = None" and "first_call frame st = Inr st'"
  shows "grows (fst st) (fst st')"
proof -
  obtain g c1 n1 where cf: "create_function frame st = Inr (g, (c1, n1))"
    and st': "st' = (c1\<lparr>c_function := Some g, c_args := Some (f_locals frame),
                   c_argstring := Some (join '', ''
                     (map (\<lambda>(var, v). var @ ''='' @ py_repr v) (f_locals frame)))\<rparr>, n1)"
    using assms(2) by (rule first_call_cases)
  have "grows (fst st) c1" using create_function_grows [OF cf] by simp
  then show ?thesis using assms(1) unfolding st' by (simp add: grows_def)
qed

lemma first_call_function:
  "first_call frame st = Inr st' \<Longrightarrow> c_function (fst st') \<noteq> None"
  by (erule first_call_cases) simp

lemma collect_function_of:
  "collect_function frame st = Inr (f, st') \<Longrightarrow> c_function (fst st') = c_function (fst st)"
  by (cases st)
     (auto simp: collect_function_def create_function_def Let_def
           split: option.splits new_result.splits if_splits)

lemma collect_function_kept:
  assumes "collect frame event st = Inr st'"
  shows "c_function (fst st') = c_function (fst st)"
proof -
  obtain f c n where cf: "collect_function frame st = Inr (f, (c, n))"
    and st': "st' = (c\<lparr>c_coverage := coverage_add (f, f_lineno frame) (c_coverage c)\<rparr>, n)"
    using assms by (rule collect_cases)
  show ?thesis using collect_function_of [OF cf] unfolding st' by simp
qed

lemma traceit_grows:
  assumes "traceit frame event st = Inr st'"
  shows "grows (fst st) (fst st')"
proof (cases "list_ex (\<lambda>item. ignores item frame) (items_to_ignore (fst st))")
  case True
  then show ?thesis using assms by (auto simp: traceit_def grows_refl)
next
  case False
  show ?thesis
  proof (cases "c_function (fst st) = None \<and> event = ''call''")
    case first: True
    then obtain st1 where fc: "first_call frame st = Inr st1"
        and co: "collect frame event st1 = Inr st'"
      using assms False by (auto simp: traceit_def split: sum.splits)
    have "grows (fst st) (fst st1)" using first fc by (simp add: first_call_grows)
    then show ?thesis using collect_grows [OF co] by (rule grows_trans)
  next
    case later: False
    then have "collect frame event st = Inr st'"
      using assms False by (auto simp: traceit_def)
    then show ?thesis by (rule collect_grows)
  qed
qed

lemma traceit_internal_grows:
  "traceit_internal frame event st = Inr st' \<Longrightarrow> grows (fst st) (fst st')"
  by (auto simp: traceit_internal_def grows_refl traceit_grows split: if_splits)

lemma run_block_grows: "grows (fst st) (fst (fst (run_block evs st)))"
proof (induction evs arbitrary: st)
  case Nil
  show ?case by (simp add: grows_refl)
next
  case (Cons ev evs)
  show ?case
  proof (cases "traceit_internal (fst ev) (snd ev) st")
    case (Inl e)
    then show ?thesis by (simp add: grows_refl)
  next
    case (Inr st')
    have "grows (fst st) (fst st')" using Inr by (rule traceit_internal_grows)
    then show ?thesis using Cons.IH [of st'] Inr by (auto intro: grows_trans)
  qed
qed

lemma run_block_append:
  "run_block (xs @ ys) st =
     (case run_block xs st of
        (st', None) \<Rightarrow> run_block ys st'
      | (st', Some e) \<Rightarrow> (st', Some e))"
  by (induction xs arbitrary: st) (auto split: sum.splits)

lemma traceit_internal_event:
  assumes "qualifying (fst st) frame" and "traceit_internal frame event st = Inr st'"
  shows "\<exists>u. (u, f_lineno frame) \<in> events (fst st')"
proof -
  have "collect frame event st = Inr st'
          \<or> (\<exists>st1. first_call frame st = Inr st1 \<and> collect frame event st1 = Inr st')"
    using assms
    by (auto simp: traceit_internal_def traceit_def qualifying_def split: if_splits sum.splits)
  then obtain s where "collect frame event s = Inr st'" by blast
  then show ?thesis using collect_event by blast
qed

lemma traceit_internal_function:
  assumes "traceit_internal frame event st = Inr st'"
  shows "(c_function (fst st') = None) =
           (c_function (fst st) = None \<and> \<not> (event = ''call'' \<and> qualifying (fst st) frame))"
proof (cases "c_function (fst st) = None")
  case False
  then show ?thesis using traceit_internal_grows [OF assms] by (auto simp: grows_def)
next
  case True
  show ?thesis
  proof (cases "qualifying (fst st) frame")
    case q: True
    show ?thesis
    proof (cases "event = ''call''")
      case call: True
      obtain st1 where fc: "first_call frame st = Inr st1"
          and co: "collect frame event st1 = Inr st'"
        using assms True q call
        by (auto simp: traceit_internal_def traceit_def qualifying_def split: sum.splits)
      have "c_function (fst st') \<noteq> None"
        using first_call_function [OF fc] collect_function_kept [OF co] by simp
      then show ?thesis using True q call by simp
    next
      case other: False
      then have "collect frame event st = Inr st'"
        using assms q by (auto simp: traceit_internal_def traceit_def qualifying_def)
      then show ?thesis using collect_function_kept True other by simp
    qed
  next
    case nq: False
    then have "st' = st"
      using assms by (auto simp: traceit_internal_def traceit_def qualifying_def split: if_splits)
    then show ?thesis using True nq by simp
  qed
qed

lemma call_in_Cons:
  "call_in c (ev # evs) = ((snd ev = ''call'' \<and> qualifying c (fst ev)) \<or> call_in c evs)"
  by (cases ev) (simp add: call_in_def)

lemma call_in_stable: "grows c c' \<Longrightarrow> call_in c' evs = call_in c evs"
  by (simp add: call_in_def qualifying_grows)

lemma run_block_no_call:
  "c_function (fst st) = None \<Longrightarrow> \<not> call_in (fst st) evs \<Longrightarrow>
     c_function (fst (fst (run_block evs st))) = None"
proof (induction evs arbitrary: st)
  case Nil
  then show ?case by simp
next
  case (Cons ev evs)
  show ?case
  proof (cases "traceit_internal (fst ev) (snd ev) st")
    case (Inl e)
    then show ?thesis using Cons.prems(1) by simp
  next
    case (Inr st')
    have g: "grows (fst st) (fst st')" using Inr by (rule traceit_internal_grows)
    have "c_function (fst st') = None"
      using traceit_internal_function [OF Inr] Cons.prems by (simp add: call_in_Cons)
    moreover have "\<not> call_in (fst st') evs"
      using Cons.prems(2) call_in_stable [OF g] by (simp add: call_in_Cons)
    ultimately show ?thesis using Cons.IH [of st'] Inr by simp
  qed
qed

lemma run_block_call:
  "call_in (fst st) evs \<Longrightarrow> snd (run_block evs st) = None \<Longrightarrow>
     c_function (fst (fst (run_block evs st))) \<noteq> None"
proof (induction evs arbitrary: st)
  case Nil
  then show ?case by (simp add: call_in_def)
next
  case (Cons ev evs)
  show ?case
  proof (cases "traceit_internal (fst ev) (snd ev) st")
    case (Inl e)
    then show ?thesis using Cons.prems(2) by simp
  next
    case (Inr st')
    have g: "grows (fst st) (fst st')" using Inr by (rule traceit_internal_grows)
    have rest: "snd (run_block evs st') = None" using Cons.prems(2) Inr by simp
    show ?thesis
    proof (cases "c_function (fst st') = None")
      case True
      then have "\<not> (snd ev = ''call'' \<and> qualifying (fst st) (fst ev))"
        using traceit_internal_function [OF Inr] by simp
      then have "call_in (fst st) evs"
        using Cons.prems(1) by (auto simp: call_in_Cons)
      then have "call_in (fst st') evs"
        using call_in_stable [OF g] by simp
      then show ?thesis using Cons.IH [OF _ rest] Inr by simp
    next
      case False
      have "grows (fst st') (fst (fst (run_block evs st')))" by (rule run_block_grows)
      then have "c_function (fst (fst (run_block evs st'))) = c_function (fst st')"
        using False by (simp add: grows_def)
      then show ?thesis using False Inr by simp
    qed
  qed
qed

lemma run_block_coverage_mono:
  "c_coverage (fst st) \<subseteq> c_coverage (fst (fst (run_block evs st)))"
  using run_block_grows [of st evs] by (simp add: grows_def)

lemma search_func_frame_f: "search_func ''f'' (frame_f lineno) = None"
  by (simp add: search_func_def frame_f_def)

lemma search_func_listcomp: "search_func ''<listcomp>'' frame_listcomp = None"
  by (simp add: search_func_def frame_listcomp_def frame_f_def)

lemma frame_f_sel:
  "co_name (f_code (frame_f lineno)) = ''f''" "co_new (f_code (frame_f lineno)) = Created"
  "f_lineno (frame_f lineno) = lineno" "f_locals (frame_f lineno) = [(''x'', PyData ''1'')]"
  by (simp_all add: frame_f_def code_f_def)

lemma frame_listcomp_sel:
  "co_name (f_code frame_listcomp) = ''<listcomp>''" "co_new (f_code frame_listcomp) = TypeErr"
  "f_lineno frame_listcomp = 11" "f_locals frame_listcomp = [(''.0'', PyData ''<list_iterator>'')]"
  by (simp_all add: frame_listcomp_def)

lemma block_listcomp_prefix:
  "run_block [(frame_f 10, ''call''), (frame_f 11, ''line'')] (collector0\<lparr>c_unknown := unk\<rparr>, 5)
     = ((collector0\<lparr>c_unknown := unk,
                    generated_function_cache := [(''f'', 10) \<mapsto> Func 5 ''f'', (''f'', 11) \<mapsto> Func 6 ''f''],
                    c_function := Some (Func 5 ''f''),
                    c_args := Some [(''x'', PyData ''1'')],
                    c_argstring := Some ''x=1'',
                    c_coverage := {(Func 5 ''f'', 10), (Func 6 ''f'', 11)}\<rparr>, 7), None)"
  by (simp add: traceit_internal_def traceit_def first_call_def collect_def collect_function_def
        create_function_def search_func_frame_f our_frame_def ignores_def coverage_add_def
        collector0_def new_collector_def frame_f_sel Let_def insert_commute)

text \<open>
  C9 fails of the collector class in \<open>debugger classes/CoverageCollector.py\<close>, which
  does not define the placeholder \<open>unknown\<close> that the \<open>TypeError\<close> handler of
  \<open>create_function\<close> reads: a \<open>collect\<close> step can raise instead of adding the event of
  the current frame, and a line that the block executes is then missing from the coverage.
  The block runs
  \<open>f\<close>, whose line 11 holds a list comprehension over a local variable.  With the copy
  that lacks \<open>unknown\<close>, \<open>collect\<close> raises \<open>AttributeError\<close> at the first event of the
  comprehension: no event of that frame is recorded and tracing stops there.  With the copy
  that defines it, the same block is traced to its end and the event of the comprehension
  is recorded under the placeholder unit.
\<close>

theorem collect_listcomp_raises:
  "collect frame_listcomp ''call''
       (fst (run_block [(frame_f 10, ''call''), (frame_f 11, ''line'')] (collector0, 5)))
     = Inl (AttributeError ''unknown'')
   \<and> snd (run_block block_listcomp (collector0, 5)) = Some (AttributeError ''unknown'')
   \<and> events (fst (fst (run_block block_listcomp (collector0, 5)))) = {(''f'', 10), (''f'', 11)}
   \<and> snd (run_block block_listcomp (collector0\<lparr>c_unknown := True\<rparr>, 5)) = None
   \<and> events (fst (fst (run_block block_listcomp (collector0\<lparr>c_unknown := True\<rparr>, 5))))
       = {(''f'', 10), (''f'', 11), (''unknown'', 11)}"
proof -
  have split: "block_listcomp = [(frame_f 10, ''call''), (frame_f 11, ''line'')]
                 @ [(frame_listcomp, ''call''), (frame_listcomp, ''line''),
                    (frame_listcomp, ''return''), (frame_f 11, ''return'')]"
    by (simp add: block_listcomp_def)
  have c0: "collector0\<lparr>c_unknown := False\<rparr> = collector0"
    by (simp add: collector0_def new_collector_def)
  have pre: "run_block [(frame_f 10, ''call''), (frame_f 11, ''line'')] (collector0, 5)
     = ((collector0\<lparr>c_unknown := False,
                    generated_function_cache := [(''f'', 10) \<mapsto> Func 5 ''f'', (''f'', 11) \<mapsto> Func 6 ''f''],
                    c_function := Some (Func 5 ''f''),
                    c_args := Some [(''x'', PyData ''1'')],
                    c_argstring := Some ''x=1'',
                    c_coverage := {(Func 5 ''f'', 10), (Func 6 ''f'', 11)}\<rparr>, 7), None)"
    using block_listcomp_prefix [of False] by (simp only: c0)
  have a: "collect frame_listcomp ''call''
       (fst (run_block [(frame_f 10, ''call''), (frame_f 11, ''line'')] (collector0, 5)))
     = Inl (AttributeError ''unknown'')"
    unfolding pre
    by (simp add: collect_def collect_function_def create_function_def search_func_listcomp
          Let_def frame_listcomp_sel)
  have b: "run_block block_listcomp (collector0, 5)
             = (fst (run_block [(frame_f 10, ''call''), (frame_f 11, ''line'')] (collector0, 5)),
                Some (AttributeError ''unknown''))"
    unfolding split run_block_append pre
    by (simp add: traceit_internal_def traceit_def collect_def collect_function_def
          create_function_def search_func_listcomp our_frame_def ignores_def
          collector0_def new_collector_def frame_listcomp_sel Let_def)
  have c: "events (fst (fst (run_block block_listcomp (collector0, 5)))) = {(''f'', 10), (''f'', 11)}"
    unfolding b pre by (simp add: events_def)
  have d: "run_block block_listcomp (collector0\<lparr>c_unknown := True\<rparr>, 5)
     = ((collector0\<lparr>c_unknown := True,
                    generated_function_cache := [(''f'', 10) \<mapsto> Func 5 ''f'', (''f'', 11) \<mapsto> Func 6 ''f'',
                                                 (''<listcomp>'', 11) \<mapsto> Method 7 0],
                    c_function := Some (Func 5 ''f''),
                    c_args := Some [(''x'', PyData ''1'')],
                    c_argstring := Some ''x=1'',
                    c_coverage := {(Func 5 ''f'', 10), (Func 6 ''f'', 11), (Method 7 0, 11)}\<rparr>, 8),
        None)"
    unfolding split run_block_append block_listcomp_prefix
    by (simp add: traceit_internal_def traceit_def collect_def collect_function_def
          create_function_def search_func_listcomp search_func_frame_f our_frame_def
          ignores_def coverage_add_def collector0_def new_collector_def frame_listcomp_sel
          frame_f_sel Let_def insert_commute)
  have e: "events (fst (fst (run_block block_listcomp (collector0\<lparr>c_unknown := True\<rparr>, 5))))
       = {(''f'', 10), (''f'', 11), (''unknown'', 11)}"
    unfolding d by (simp add: events_def)
  show ?thesis
    using a b c d e by simp
qed

text \<open>
  C7 as stated fails: the cache key is the name and the line the frame is at, not the line
  the code object starts at.  The same code object of \<open>f\<close>, resolved at its \<open>call\<close> event
  (line 10) and again at a \<open>line\<close> event (line 11), yields two different function objects.
\<close>

theorem create_function_same_code_counterexample:
  "f_code (frame_f 11) = f_code (frame_f 10)
     \<and> map_sum id fst (create_function (frame_f 10) (collector0, 5)) = Inr (Func 5 ''f'')
     \<and> map_sum id fst
         (create_function (frame_f 11)
            (snd (projr (create_function (frame_f 10) (collector0, 5)))))
         = Inr (Func 6 ''f'')"
  by (simp add: create_function_def collector0_def new_collector_def frame_f_def code_f_def
        Let_def)

text \<open>
  C7, amended.  Synthesized units are memoized by the key (name, current line of the frame)
  for the life of the collector: once \<open>create_function\<close> has returned a unit for a frame,
  it returns the identical object, and leaves the collector as it is, for every frame with
  the same name at the same line, whatever the collector has traced in between.
\<close>

theorem create_function_memoized:
  assumes "create_function frame1 st = Inr (unit, st1)"
    and "co_name (f_code frame2) = co_name (f_code frame1)"
    and "f_lineno frame2 = f_lineno frame1"
  shows "create_function frame2 (fst (run_block evs st1))
           = Inr (unit, fst (run_block evs st1))"
proof -
  have "generated_function_cache (fst st1) (co_name (f_code frame1), f_lineno frame1) = Some unit"
    using assms(1) by (rule create_function_cached)
  moreover have "generated_function_cache (fst st1) \<subseteq>\<^sub>m
                 generated_function_cache (fst (fst (run_block evs st1)))"
    using run_block_grows [of st1 evs] by (simp add: grows_def)
  ultimately have "generated_function_cache (fst (fst (run_block evs st1)))
                     (co_name (f_code frame2), f_lineno frame2) = Some unit"
    using assms(2,3) by (auto simp: map_le_def dom_def)
  then show ?thesis by (rule create_function_hit)
qed

theorem create_function_memoized_witness:
  "map_sum id fst
     (create_function (frame_f 10)
        (fst (run_block block_g (snd (projr (create_function (frame_f 10) (collector0, 5)))))))
     = Inr (Func 5 ''f'')"
proof -
  have "create_function (frame_f 10) (collector0, 5)
          = Inr (Func 5 ''f'', snd (projr (create_function (frame_f 10) (collector0, 5))))"
    by (simp add: create_function_def collector0_def new_collector_def frame_f_def code_f_def
          Let_def)
  then have "create_function (frame_f 10)
        (fst (run_block block_g (snd (projr (create_function (frame_f 10) (collector0, 5))))))
      = Inr (Func 5 ''f'',
             fst (run_block block_g (snd (projr (create_function (frame_f 10) (collector0, 5))))))"
    by (rule create_function_memoized [OF _ refl refl])
  then show ?thesis by simp
qed

section \<open>Sessions of the debugger\<close>

lemma is_internal_error_grows: "grows c c' \<Longrightarrow> is_internal_error c' exc = is_internal_error c exc"
proof -
  assume "grows c c'"
  then have a: "c_class c' = c_class c" by (simp add: grows_def)
  have "our_frame c' = our_frame c"
    unfolding our_frame_def a by (rule refl)
  then show ?thesis by (simp add: is_internal_error_def split: option.splits)
qed

lemma created_never_raises:
  assumes "co_new (f_code frame) = Created"
  shows "\<exists>st'. traceit_internal frame event st = Inr st'"
proof -
  have cf: "\<exists>g s'. create_function frame s = Inr (g, s')" for s
    using assms by (cases s) (auto simp: create_function_def Let_def split: option.splits)
  have co: "\<exists>s'. collect frame event s = Inr s'" for s
  proof (cases "search_func (co_name (f_code frame)) frame")
    case None
    obtain g c n where "create_function frame s = Inr (g, (c, n))"
      using cf [of s] by (metis prod.exhaust)
    then show ?thesis using None by (simp add: collect_def collect_function_def)
  next
    case (Some f)
    then show ?thesis by (cases s) (simp add: collect_def collect_function_def)
  qed
  have fc: "\<exists>s'. first_call frame s = Inr s'" for s
  proof -
    obtain g c n where "create_function frame s = Inr (g, (c, n))"
      using cf [of s] by (metis prod.exhaust)
    then show ?thesis by (simp add: first_call_def)
  qed
  show ?thesis
  proof (cases "our_frame (fst st) frame
                  \<or> list_ex (\<lambda>item. ignores item frame) (items_to_ignore (fst st))")
    case True
    then show ?thesis by (auto simp: traceit_internal_def traceit_def)
  next
    case False
    show ?thesis
    proof (cases "c_function (fst st) = None \<and> event = ''call''")
      case first: True
      obtain s1 where s1: "first_call frame st = Inr s1" using fc by blast
      obtain s2 where "collect frame event s1 = Inr s2" using co by blast
      then show ?thesis using False first s1 by (simp add: traceit_internal_def traceit_def)
    next
      case later: False
      obtain s2 where "collect frame event st = Inr s2" using co by blast
      then show ?thesis using False later by (auto simp: traceit_internal_def traceit_def)
    qed
  qed
qed

lemma run_block_never_raises:
  "list_all (\<lambda>ev. co_new (f_code (fst ev)) = Created) evs \<Longrightarrow> snd (run_block evs st) = None"
proof (induction evs arbitrary: st)
  case Nil
  show ?case by simp
next
  case (Cons ev evs)
  then obtain st' where "traceit_internal (fst ev) (snd ev) st = Inr st'"
    using created_never_raises [of "fst ev" "snd ev" st] by auto
  then show ?case using Cons by simp
qed

lemma session_state:
  obtains c n raised where
    "session_trace d w evs = ((c, n), raised)"
    "original_trace_function c = trace_slot w"
    "is_internal_error c exc = is_internal_error (session_collector d w) exc"
    "(c_function c \<noteq> None) = call_recorded d w evs"
proof -
  let ?c0 = "(session_collector d w)\<lparr>original_trace_function := trace_slot w\<rparr>"
  obtain c n raised where tr: "session_trace d w evs = ((c, n), raised)"
    by (metis prod.exhaust)
  have g: "grows ?c0 c"
    using run_block_grows [of "(?c0, Suc (next_oid w))" evs] tr by (simp add: session_trace_def)
  have same: "c_class ?c0 = c_class (session_collector d w)" by simp
  have o: "our_frame ?c0 = our_frame (session_collector d w)"
    unfolding our_frame_def same by (rule refl)
  have ie: "is_internal_error ?c0 exc = is_internal_error (session_collector d w) exc"
    by (simp add: is_internal_error_def o split: option.splits)
  have 1: "original_trace_function c = trace_slot w"
    using g by (simp add: grows_def)
  have 2: "is_internal_error c exc = is_internal_error (session_collector d w) exc"
    using is_internal_error_grows [OF g] ie by simp
  have 3: "(c_function c \<noteq> None) = call_recorded d w evs"
    by (simp add: call_recorded_def tr)
  show ?thesis by (rule that [OF tr 1 2 3])
qed

lemma call_in_entered:
  "call_in ((session_collector d w)\<lparr>original_trace_function := slot\<rparr>) evs
     = call_in (session_collector d w) evs"
proof -
  let ?c0 = "(session_collector d w)\<lparr>original_trace_function := slot\<rparr>"
  have same: "c_class ?c0 = c_class (session_collector d w)"
             "items_to_ignore ?c0 = items_to_ignore (session_collector d w)"
    by simp_all
  have "qualifying ?c0 = qualifying (session_collector d w)"
    unfolding qualifying_def our_frame_def same by (rule refl)
  then show ?thesis by (simp add: call_in_def)
qed

lemma call_recorded_observed: "call_recorded d w evs \<Longrightarrow> call_in (session_collector d w) evs"
proof (rule ccontr)
  assume rec: "call_recorded d w evs" and no: "\<not> call_in (session_collector d w) evs"
  let ?st = "((session_collector d w)\<lparr>original_trace_function := trace_slot w\<rparr>, Suc (next_oid w))"
  have "c_function (fst ?st) = None"
    by (simp add: session_collector_def add_items_to_ignore_def new_collector_def)
  moreover have "\<not> call_in (fst ?st) evs" using no by (simp add: call_in_entered)
  ultimately have "c_function (fst (fst (run_block evs ?st))) = None"
    by (rule run_block_no_call)
  then show False using rec by (simp add: call_recorded_def session_trace_def)
qed

lemma call_observed_recorded:
  assumes "call_in (session_collector d w) evs" and "snd (session_trace d w evs) = None"
  shows "call_recorded d w evs"
proof -
  let ?st = "((session_collector d w)\<lparr>original_trace_function := trace_slot w\<rparr>, Suc (next_oid w))"
  have "call_in (fst ?st) evs" using assms(1) by (simp add: call_in_entered)
  moreover have "snd (run_block evs ?st) = None" using assms(2) by (simp add: session_trace_def)
  ultimately have "c_function (fst (fst (run_block evs ?st))) \<noteq> None"
    by (rule run_block_call)
  then show ?thesis by (simp add: call_recorded_def session_trace_def)
qed

lemma collectors_add_entered:
  "collectors (add_collector outcome r (d\<lparr>d_collector := x\<rparr>)) = collectors (add_collector outcome r d)"
  by (simp add: add_collector_def Let_def)

lemma session_eq:
  "session d w evs exc =
     (let sc = session_collector d w; r = next_oid w;
          st = fst (session_trace d w evs);
          w' = w\<lparr>trace_slot := trace_slot w, next_oid := snd st, heap := (heap w)(r := fst st)\<rparr>;
          d1 = d\<lparr>d_collector := Some r\<rparr>
      in if \<not> call_recorded d w evs then
           (case exc of
              None \<Rightarrow> (Raises (ValueError ''No call collected''), d1, w')
            | Some x \<Rightarrow> (Propagates x, d1, w'))
         else if is_internal_error sc exc then (Propagates (the exc), d1, w')
         else (Normal, add_collector (if exc = None then PASS else FAIL) r d1, w'))"
proof -
  obtain c n raised where st:
    "session_trace d w evs = ((c, n), raised)"
    "original_trace_function c = trace_slot w"
    "is_internal_error c exc = is_internal_error (session_collector d w) exc"
    "(c_function c \<noteq> None) = call_recorded d w evs"
    by (rule session_state)
  have enter: "debugger_enter d w =
          (d\<lparr>d_collector := Some (next_oid w)\<rparr>,
           w\<lparr>trace_slot := Some (CollectorTraceit (next_oid w)), next_oid := Suc (next_oid w),
             heap := (heap w)(next_oid w :=
                       (session_collector d w)\<lparr>original_trace_function := trace_slot w\<rparr>)\<rparr>)"
    by (simp add: debugger_enter_def collector_enter_def session_collector_def Let_def
          add_items_to_ignore_def new_collector_def)
  have rb: "run_block evs
              ((session_collector d w)\<lparr>original_trace_function := trace_slot w\<rparr>,
               Suc (next_oid w)) = ((c, n), raised)"
    using st(1) by (simp add: session_trace_def)
  have ie_none: "exc = None \<Longrightarrow> \<not> is_internal_error (session_collector d w) exc"
    by (simp add: is_internal_error_def)
  show ?thesis
    using st(2-4) ie_none
    by (cases exc)
       (auto simp: session_def enter trace_block_def rb st(1) debugger_exit_def
          collector_exit_def with_exit_def Let_def)
qed

lemma collect_session_eq:
  "collect_session outcome d w evs exc =
     (let sc = session_collector d w; r = next_oid w;
          st = fst (session_trace d w evs);
          w' = w\<lparr>trace_slot := trace_slot w, next_oid := snd st, heap := (heap w)(r := fst st)\<rparr>;
          d1 = add_collector outcome r d
      in if \<not> call_recorded d w evs then
           (case exc of
              None \<Rightarrow> (Raises (ValueError ''No call collected''), d1, w')
            | Some x \<Rightarrow> (Propagates x, d1, w'))
         else (case exc of None \<Rightarrow> (Normal, d1, w') | Some x \<Rightarrow> (Propagates x, d1, w')))"
proof -
  obtain c n raised where st:
    "session_trace d w evs = ((c, n), raised)"
    "original_trace_function c = trace_slot w"
    "is_internal_error c exc = is_internal_error (session_collector d w) exc"
    "(c_function c \<noteq> None) = call_recorded d w evs"
    by (rule session_state)
  have rb: "run_block evs
              ((session_collector d w)\<lparr>original_trace_function := trace_slot w\<rparr>,
               Suc (next_oid w)) = ((c, n), raised)"
    using st(1) by (simp add: session_trace_def)
  have coll: "debugger_collect outcome d w =
          (next_oid w, add_collector outcome (next_oid w) d,
           w\<lparr>next_oid := Suc (next_oid w),
             heap := (heap w)(next_oid w := session_collector d w)\<rparr>)"
    by (simp add: debugger_collect_def session_collector_def Let_def)
  show ?thesis
    using st(2,4)
    by (cases exc)
       (auto simp: collect_session_def coll collector_enter_def trace_block_def rb st(1)
          collector_exit_def with_exit_def Let_def)
qed

text \<open>
  C6.  \<open>__exit__\<close> of a collector puts \<open>original_trace_function\<close> back into the global
  trace-callback slot on every path, whether it returns or raises; after \<open>__enter__\<close>,
  any traced events and \<open>__exit__\<close> the slot holds what it held before \<open>__enter__\<close>; and
  so it does after every session of the debugger, opened with the debugger itself or with
  a collector from \<open>collect\<close>, whatever the block traced and however it ended.
\<close>

theorem trace_slot_restored:
  "snd (collector_exit c exc) = original_trace_function c
   \<and> snd (collector_exit (fst (fst (run_block evs (fst (collector_enter c slot), n)))) exc) = slot
   \<and> trace_slot (snd (snd (session d w evs exc))) = trace_slot w
   \<and> trace_slot (snd (snd (collect_session outcome d w evs exc))) = trace_slot w"
proof -
  have a: "snd (collector_exit c' exc) = original_trace_function c'" for c'
    by (simp add: collector_exit_def Let_def)
  have "grows (fst (collector_enter c slot))
          (fst (fst (run_block evs (fst (collector_enter c slot), n))))"
    using run_block_grows [of "(fst (collector_enter c slot), n)" evs] by simp
  then have b: "original_trace_function
                  (fst (fst (run_block evs (fst (collector_enter c slot), n)))) = slot"
    by (simp add: grows_def collector_enter_def)
  have c: "trace_slot (snd (snd (session d w evs exc))) = trace_slot w"
    by (simp add: session_eq Let_def split: option.splits)
  have d: "trace_slot (snd (snd (collect_session outcome d w evs exc))) = trace_slot w"
    by (simp add: collect_session_eq Let_def split: option.splits)
  show ?thesis using a b c d by simp
qed

text \<open>
  C5 as stated fails for a session with a given outcome: \<open>collect_pass\<close> files the
  collector when it creates it, so a block that calls nothing and returns normally makes
  \<open>__exit__\<close> raise \<open>ValueError\<close> while the collector stays filed under \<open>PASS\<close>.
\<close>

theorem collect_session_counterexample:
  "\<not> call_in (session_collector debugger0 world0) []
     \<and> fst (collect_session PASS debugger0 world0 [] None)
         = Raises (ValueError ''No call collected'')
     \<and> filed (fst (snd (collect_session PASS debugger0 world0 [] None))) PASS = [2]"
proof -
  have "\<not> call_recorded debugger0 world0 []"
    by (simp add: call_recorded_def session_trace_def session_collector_def
          add_items_to_ignore_def new_collector_def)
  then show ?thesis
    by (simp add: collect_session_eq Let_def call_in_def filed_add_collector
          debugger0_def filed_new_debugger world0_def)
qed

text \<open>
  C5, amended.  A session opened with the debugger itself (\<open>with debugger:\<close>) whose block
  contains no qualifying \<open>call\<close> event files nothing: the debugger's collectors are
  unchanged; when the block returns normally the \<open>with\<close> statement raises
  \<open>ValueError("No call collected")\<close>, and when the block raises, its exception is passed
  on.  A session on a collector from \<open>collect\<close> raises the same error when its block
  returns normally, and leaves the collector filed as \<open>collect\<close> filed it.
\<close>

theorem no_call_not_filed:
  assumes "\<not> call_in (session_collector d w) evs"
  shows "collectors (fst (snd (session d w evs exc))) = collectors d
       \<and> (exc = None \<longrightarrow> fst (session d w evs exc) = Raises (ValueError ''No call collected''))
       \<and> (\<forall>x. exc = Some x \<longrightarrow> fst (session d w evs exc) = Propagates x)
       \<and> fst (collect_session outcome d w evs None) = Raises (ValueError ''No call collected'')
       \<and> filed (fst (snd (collect_session outcome d w evs exc))) outcome
           = filed d outcome @ [next_oid w]"
proof -
  have nr: "\<not> call_recorded d w evs"
    using assms call_recorded_observed by blast
  show ?thesis
    using nr
    by (auto simp: session_eq collect_session_eq Let_def filed_add_collector
          split: option.splits)
qed

text \<open>
  C2 as stated fails for a block in which no qualifying call is observed: a block that
  calls nothing and raises nothing is not filed under \<open>PASS\<close> (the session raises
  \<open>ValueError\<close>), and a block that calls nothing and raises a fault of its own is not filed
  under \<open>FAIL\<close> (the fault is passed on to the caller).
\<close>

theorem session_outcome_counterexample:
  "fst (session debugger0 world0 [] None) = Raises (ValueError ''No call collected'')
     \<and> filed (fst (snd (session debugger0 world0 [] None))) PASS = []
     \<and> \<not> is_internal_error (session_collector debugger0 world0) (Some fault1)
     \<and> fst (session debugger0 world0 [] (Some fault1)) = Propagates fault1
     \<and> filed (fst (snd (session debugger0 world0 [] (Some fault1)))) FAIL = []"
proof -
  have "\<not> call_recorded debugger0 world0 []"
    by (simp add: call_recorded_def session_trace_def session_collector_def
          add_items_to_ignore_def new_collector_def)
  then show ?thesis
    by (simp add: session_eq Let_def is_internal_error_def fault1_def our_frame_def
          frame_module_def filed_def debugger0_def new_debugger_def)
qed

text \<open>
  C2, amended.  For every session of the debugger whose collector has recorded a first
  call when the block ends: if the block raises no fault, the session's collector is filed
  under \<open>PASS\<close>; if it raises a fault whose traceback has no tracer-internal frame, the
  collector is filed under \<open>FAIL\<close> and the fault is swallowed.  For every session, if the
  fault's traceback includes a tracer-internal frame, the fault is passed on unmodified and
  nothing is filed.  A first call is recorded only if the block contains a qualifying
  \<open>call\<close> event, and it is recorded whenever the block contains one and no trace callback
  raised.
\<close>

theorem session_outcome:
  assumes "session d w evs exc = (res, d', w')"
  shows "d_collector d' = Some (next_oid w)
       \<and> (call_recorded d w evs \<and> exc = None \<longrightarrow>
            res = Normal \<and> collectors d' = collectors (add_collector PASS (next_oid w) d))
       \<and> (\<forall>x. call_recorded d w evs \<and> exc = Some x
              \<and> \<not> is_internal_error (session_collector d w) (Some x) \<longrightarrow>
            res = Normal \<and> collectors d' = collectors (add_collector FAIL (next_oid w) d))
       \<and> (\<forall>x. exc = Some x \<and> is_internal_error (session_collector d w) (Some x) \<longrightarrow>
            res = Propagates x \<and> collectors d' = collectors d)
       \<and> (call_recorded d w evs \<longrightarrow> call_in (session_collector d w) evs)
       \<and> (call_in (session_collector d w) evs \<and> snd (session_trace d w evs) = None \<longrightarrow>
            call_recorded d w evs)"
proof -
  have ie_none: "\<not> is_internal_error (session_collector d w) None"
    by (simp add: is_internal_error_def)
  have dc: "d_collector (add_collector outcome r d1) = d_collector d1" for outcome r d1
    by (simp add: add_collector_def Let_def)
  have main: "d_collector d' = Some (next_oid w)
       \<and> (call_recorded d w evs \<and> exc = None \<longrightarrow>
            res = Normal \<and> collectors d' = collectors (add_collector PASS (next_oid w) d))
       \<and> (\<forall>x. call_recorded d w evs \<and> exc = Some x
              \<and> \<not> is_internal_error (session_collector d w) (Some x) \<longrightarrow>
            res = Normal \<and> collectors d' = collectors (add_collector FAIL (next_oid w) d))
       \<and> (\<forall>x. exc = Some x \<and> is_internal_error (session_collector d w) (Some x) \<longrightarrow>
            res = Propagates x \<and> collectors d' = collectors d)"
    using assms ie_none
    by (auto simp: session_eq Let_def collectors_add_entered dc split: option.splits if_splits)
  show ?thesis
    using main call_recorded_observed [of d w evs] call_observed_recorded [of d w evs]
    by blast
qed

lemma call_in_block_f: "call_in (session_collector debugger0 world0) block_f"
  by (simp add: call_in_def qualifying_def our_frame_def ignores_def session_collector_def
        add_items_to_ignore_def new_collector_def debugger0_def new_debugger_def block_f_def
        frame_f_def code_f_def)

lemma block_f_never_raises: "snd (session_trace d w block_f) = None"
  unfolding session_trace_def
  by (rule run_block_never_raises) (simp add: block_f_def frame_f_def code_f_def)

lemma call_recorded_block_f: "call_recorded debugger0 world0 block_f"
  using call_in_block_f block_f_never_raises by (rule call_observed_recorded)

lemma session_triple: "session d w evs exc =
    (fst (session d w evs exc), fst (snd (session d w evs exc)), snd (snd (session d w evs exc)))"
  by simp

lemma internal_fault2: "is_internal_error (session_collector debugger0 world0) (Some fault2)"
  by (simp add: is_internal_error_def fault2_def our_frame_def frame_tracer_def
        session_collector_def add_items_to_ignore_def new_collector_def debugger0_def
        new_debugger_def)

theorem trace_slot_restored_witness:
  "trace_slot (snd (snd (session debugger0 world0 block_f (Some fault2)))) = Some (OtherTrace 0)
   \<and> fst (session debugger0 world0 block_f (Some fault2)) = Propagates fault2"
proof -
  have "fst (session debugger0 world0 block_f (Some fault2)) = Propagates fault2"
    using internal_fault2 by (simp add: session_eq Let_def call_recorded_block_f)
  then show ?thesis
    using trace_slot_restored [where c = collector0 and slot = None and n = 0
            and d = debugger0 and w = world0 and evs = block_f and exc = "Some fault2"]
    by (simp add: world0_def)
qed

theorem no_call_not_filed_witness:
  "\<not> call_in (session_collector debugger0 world0) []
     \<and> fst (session debugger0 world0 [] None) = Raises (ValueError ''No call collected'')
     \<and> collectors (fst (snd (session debugger0 world0 [] None))) = []"
proof -
  have nc: "\<not> call_in (session_collector debugger0 world0) []"
    by (simp add: call_in_def)
  show ?thesis
    using nc no_call_not_filed [OF nc, where exc = None and outcome = PASS]
    by (simp add: debugger0_def new_debugger_def)
qed

theorem session_outcome_witness:
  "call_recorded debugger0 world0 block_f
     \<and> \<not> is_internal_error (session_collector debugger0 world0) (Some fault1)
     \<and> is_internal_error (session_collector debugger0 world0) (Some fault2)
     \<and> fst (session debugger0 world0 block_f None) = Normal
     \<and> filed (fst (snd (session debugger0 world0 block_f None))) PASS = [2]
     \<and> fst (session debugger0 world0 block_f (Some fault1)) = Normal
     \<and> filed (fst (snd (session debugger0 world0 block_f (Some fault1)))) FAIL = [2]
     \<and> fst (session debugger0 world0 block_f (Some fault2)) = Propagates fault2
     \<and> collectors (fst (snd (session debugger0 world0 block_f (Some fault2)))) = []"
proof -
  have n1: "\<not> is_internal_error (session_collector debugger0 world0) (Some fault1)"
    by (simp add: is_internal_error_def fault1_def our_frame_def frame_module_def)
  have f: "filed (add_collector outcome 2 debugger0) outcome = [2]" for outcome
    by (simp add: filed_add_collector debugger0_def filed_new_debugger)
  have c0: "collectors debugger0 = []" "next_oid world0 = 2"
    by (simp_all add: debugger0_def new_debugger_def world0_def)
  show ?thesis
    using call_recorded_block_f n1 internal_fault2
          session_outcome [OF session_triple [of debugger0 world0 block_f None]]
          session_outcome [OF session_triple [of debugger0 world0 block_f "Some fault1"]]
          session_outcome [OF session_triple [of debugger0 world0 block_f "Some fault2"]]
    by (simp add: filed_def c0) (simp add: filed_def [symmetric] f)
qed

section \<open>The concrete sessions evaluated\<close>

lemma state2_eval:
  "collectors (fst state2) = [(''PASS'', [2, 5])]"
  "c_function (heap (snd state2) 2) = Some (Func 3 ''f'')"
  "c_function (heap (snd state2) 5) = Some (Func 6 ''g'')"
  "next_oid (snd state2) = 8"
  by (simp_all add: state2_def session_def debugger_enter_def debugger_exit_def
        collector_enter_def collector_exit_def trace_block_def with_exit_def
        traceit_internal_def traceit_def first_call_def collect_def collect_function_def
        create_function_def search_func_def coverage_add_def our_frame_def ignores_def
        is_internal_error_def add_collector_def add_items_to_ignore_def new_collector_def
        debugger0_def new_debugger_def world0_def block_f_def block_g_def frame_f_def
        frame_g_def code_f_def code_g_def collector0_def PASS_def FAIL_def Let_def)

lemma state3_eval:
  "fst state3 = 8"
  "collectors (fst (snd state3)) = [(''PASS'', [2, 5, 8])]"
  "c_function (heap (snd (snd state3)) 2) = Some (Func 3 ''f'')"
  "c_function (heap (snd (snd state3)) 5) = Some (Func 6 ''g'')"
  "c_function (heap (snd (snd state3)) 8) = None"
  using state2_eval
  by (simp_all add: state3_def collect_pass_def debugger_collect_def add_collector_def
        add_items_to_ignore_def new_collector_def PASS_def Let_def)

section \<open>The entry unit\<close>

lemma collector_function_error:
  "collector_function c = Inl e \<Longrightarrow> e = ValueError ''No call collected''"
  by (auto simp: collector_function_def split: option.splits)

lemma function_loop_raises:
  "r \<in> set rs \<Longrightarrow> c_function (h r) = None \<Longrightarrow>
     function_loop h rs acc = Inl (ValueError ''No call collected'')"
proof (induction rs arbitrary: acc)
  case Nil
  then show ?case by simp
next
  case (Cons a rs)
  obtain seen fs where acc: "acc = (seen, fs)" by (cases acc)
  show ?case
  proof (cases "collector_function (h a)")
    case (Inl e)
    then show ?thesis using collector_function_error [OF Inl] by (simp add: acc)
  next
    case (Inr func)
    then have "a \<noteq> r" using Cons.prems(2) by (auto simp: collector_function_def)
    then have "r \<in> set rs" using Cons.prems(1) by simp
    then show ?thesis
      using Inr Cons.IH [OF _ Cons.prems(2)] by (simp add: acc)
  qed
qed

lemma function_loop_units:
  assumes "\<forall>r \<in> set rs. c_function (h r) \<noteq> None"
    and "name_of ` set fs = seen" and "length fs = card seen"
  shows "\<exists>seen' fs'. function_loop h rs (seen, fs) = Inr (seen', fs')
           \<and> seen' = seen \<union> (\<lambda>r. name_of (the (c_function (h r)))) ` set rs
           \<and> length fs' = card seen'
           \<and> (fs \<noteq> [] \<longrightarrow> hd fs' = hd fs)
           \<and> (fs = [] \<and> rs \<noteq> [] \<longrightarrow> hd fs' = the (c_function (h (hd rs))))"
  using assms
proof (induction rs arbitrary: seen fs)
  case Nil
  then show ?case by simp
next
  case (Cons a rs)
  let ?N = "\<lambda>xs. (\<lambda>r. name_of (the (c_function (h r)))) ` set xs"
  obtain func where func: "c_function (h a) = Some func" using Cons.prems(1) by auto
  have cf: "collector_function (h a) = Inr func" by (simp add: collector_function_def func)
  have rest: "\<forall>r \<in> set rs. c_function (h r) \<noteq> None" using Cons.prems(1) by simp
  have fin: "finite seen" using Cons.prems(2) by auto
  have names: "?N (a # rs) = insert (name_of func) (?N rs)" using func by simp
  show ?case
  proof (cases "name_of func \<in> seen")
    case True
    have ne: "fs \<noteq> []" using True Cons.prems(2) by auto
    have step: "function_loop h (a # rs) (seen, fs) = function_loop h rs (seen, fs)"
      using cf True by simp
    obtain seen' fs' where ih:
        "function_loop h rs (seen, fs) = Inr (seen', fs')" "seen' = seen \<union> ?N rs"
        "length fs' = card seen'" "fs \<noteq> [] \<longrightarrow> hd fs' = hd fs"
      using Cons.IH [OF rest Cons.prems(2) Cons.prems(3)] by blast
    have "seen' = seen \<union> ?N (a # rs)"
      unfolding names ih(2) using True by blast
    then show ?thesis
      unfolding step using ih(1,3,4) ne by blast
  next
    case False
    have a: "name_of ` set (fs @ [func]) = insert (name_of func) seen"
      using Cons.prems(2) by auto
    have b: "length (fs @ [func]) = card (insert (name_of func) seen)"
      using Cons.prems(3) False fin by simp
    have step: "function_loop h (a # rs) (seen, fs) =
                function_loop h rs (insert (name_of func) seen, fs @ [func])"
      using cf False by simp
    obtain seen' fs' where ih:
        "function_loop h rs (insert (name_of func) seen, fs @ [func]) = Inr (seen', fs')"
        "seen' = insert (name_of func) seen \<union> ?N rs"
        "length fs' = card seen'" "hd fs' = hd (fs @ [func])"
      using Cons.IH [OF rest a b] by blast
    have s: "seen' = seen \<union> ?N (a # rs)"
      unfolding names ih(2) by blast
    have h1: "fs \<noteq> [] \<longrightarrow> hd fs' = hd fs"
      using ih(4) by simp
    have h2: "fs = [] \<and> a # rs \<noteq> [] \<longrightarrow> hd fs' = the (c_function (h (hd (a # rs))))"
      using ih(4) func by simp
    show ?thesis
      unfolding step using ih(1,3) s h1 h2 by blast
  qed
qed

lemma debugger_function_units:
  assumes "\<forall>r \<in> set (all_filed d). c_function (h r) \<noteq> None"
  shows "debugger_function h d =
           Inr (if card (unit_names h d) = 1
                then Some (the (c_function (h (hd (all_filed d))))) else None)"
proof -
  have e: "name_of ` set [] = ({} :: string set)" "length ([] :: callable list) = card ({} :: string set)"
    by simp_all
  obtain seen' fs' where loop:
      "function_loop h (all_filed d) ({}, []) = Inr (seen', fs')"
      "seen' = {} \<union> unit_names h d" "length fs' = card seen'"
      "[] = [] \<and> all_filed d \<noteq> [] \<longrightarrow> hd fs' = the (c_function (h (hd (all_filed d))))"
    using function_loop_units [OF assms e] unfolding unit_names_def by blast
  have len: "length fs' = card (unit_names h d)" using loop(2,3) by simp
  have res: "debugger_function h d = (if length fs' \<noteq> 1 then Inr None else Inr (Some (fs' ! 0)))"
    using loop(1) by (simp add: debugger_function_def all_filed_def)
  show ?thesis
  proof (cases "card (unit_names h d) = 1")
    case True
    have "all_filed d = [] \<Longrightarrow> unit_names h d = {}" by (simp add: unit_names_def)
    then have "all_filed d \<noteq> []" using True by fastforce
    then have "hd fs' = the (c_function (h (hd (all_filed d))))" using loop(4) by simp
    moreover have "fs' ! 0 = hd fs'" using True len by (cases fs') auto
    ultimately show ?thesis using True len res by simp
  next
    case False
    then show ?thesis using len res by simp
  qed
qed

text \<open>
  C8 as stated fails in a state that holds a collector without a first call: after two
  sessions on the differently named functions \<open>f\<close> and \<open>g\<close> and a \<open>collect_pass\<close>
  whose collector has not been run, more than one unit name has been observed, and the
  query raises \<open>ValueError\<close> instead of returning \<open>None\<close>.
\<close>

theorem entry_unit_query_counterexample:
  "c_function (heap (snd (snd state3)) 2) = Some (Func 3 ''f'')
     \<and> c_function (heap (snd (snd state3)) 5) = Some (Func 6 ''g'')
     \<and> all_filed (fst (snd state3)) = [2, 5, 8]
     \<and> debugger_function (heap (snd (snd state3))) (fst (snd state3))
           = Inl (ValueError ''No call collected'')"
  using state3_eval
  by (simp add: debugger_function_def all_filed_def collector_function_def)

text \<open>
  C8, amended.  In every state of the debugger in which each filed collector has recorded
  a first call: when exactly one distinct unit name is observed across the filed collectors,
  the query returns the first-call unit of the first filed collector, which bears that
  name; otherwise (no name, or more than one) it returns \<open>None\<close>; it does not raise.
\<close>

theorem entry_unit_query:
  assumes "\<forall>r \<in> set (all_filed d). c_function (h r) \<noteq> None"
  shows "(card (unit_names h d) = 1 \<longrightarrow>
            debugger_function h d = Inr (Some (the (c_function (h (hd (all_filed d))))))
            \<and> unit_names h d = {name_of (the (c_function (h (hd (all_filed d)))))})
       \<and> (card (unit_names h d) \<noteq> 1 \<longrightarrow> debugger_function h d = Inr None)"
proof -
  have single: "unit_names h d = {name_of (the (c_function (h (hd (all_filed d)))))}"
    if one: "card (unit_names h d) = 1"
  proof -
    have "all_filed d = [] \<Longrightarrow> unit_names h d = {}" by (simp add: unit_names_def)
    then have "all_filed d \<noteq> []" using one by fastforce
    then have "hd (all_filed d) \<in> set (all_filed d)" by simp
    then have mem: "name_of (the (c_function (h (hd (all_filed d))))) \<in> unit_names h d"
      unfolding unit_names_def by (rule imageI)
    obtain y where y: "unit_names h d = {y}" using one by (rule card_1_singletonE)
    show ?thesis using mem unfolding y by simp
  qed
  have res: "debugger_function h d =
           Inr (if card (unit_names h d) = 1
                then Some (the (c_function (h (hd (all_filed d))))) else None)"
    using assms by (rule debugger_function_units)
  show ?thesis
  proof (cases "card (unit_names h d) = 1")
    case True
    then show ?thesis using res single by simp
  next
    case False
    then show ?thesis using res by simp
  qed
qed

theorem entry_unit_query_witness:
  "all_filed (fst state2) = [2, 5]
     \<and> c_function (heap (snd state2) 2) = Some (Func 3 ''f'')
     \<and> c_function (heap (snd state2) 5) = Some (Func 6 ''g'')
     \<and> unit_names (heap (snd state2)) (fst state2) = {''f'', ''g''}
     \<and> debugger_function (heap (snd state2)) (fst state2) = Inr None"
proof -
  have all: "all_filed (fst state2) = [2, 5]"
    using state2_eval by (simp add: all_filed_def)
  have filed: "\<forall>r \<in> set (all_filed (fst state2)). c_function (heap (snd state2) r) \<noteq> None"
    using state2_eval by (simp add: all)
  have names: "unit_names (heap (snd state2)) (fst state2) = {''f'', ''g''}"
    using state2_eval by (simp add: unit_names_def all)
  have "card (unit_names (heap (snd state2)) (fst state2)) \<noteq> 1"
    unfolding names by simp
  then have "debugger_function (heap (snd state2)) (fst state2) = Inr None"
    using entry_unit_query [OF filed] by blast
  then show ?thesis
    using all names state2_eval by simp
qed

lemma all_filed_add_collector: "r \<in> set (all_filed (add_collector outcome r d))"
proof -
  have "map_of (collectors (add_collector outcome r d)) outcome = Some (filed d outcome @ [r])"
    by (simp add: map_of_add_collector)
  then have "(outcome, filed d outcome @ [r]) \<in> set (collectors (add_collector outcome r d))"
    by (rule map_of_SomeD)
  then show ?thesis by (force simp: all_filed_def)
qed

text \<open>
  C10.  A collector whose first-call function, argument snapshot and argument string are
  unset raises \<open>ValueError("No call collected")\<close> from \<open>function\<close>, \<open>args\<close> and
  \<open>argstring\<close>; a debugger that holds such a collector raises the same error from its
  entry-unit query; and the collector that \<open>collect\<close> (hence \<open>collect_pass\<close> and
  \<open>collect_fail\<close>) files is such a collector until it is run.
\<close>

theorem no_call_collected_raises:
  "(c_function c = None \<longrightarrow> collector_function c = Inl (ValueError ''No call collected''))
   \<and> (c_args c = None \<longrightarrow> args c = Inl (ValueError ''No call collected''))
   \<and> (c_argstring c = None \<longrightarrow> argstring c = Inl (ValueError ''No call collected''))
   \<and> (r \<in> set (all_filed d) \<and> c_function (h r) = None \<longrightarrow>
        debugger_function h d = Inl (ValueError ''No call collected''))
   \<and> (debugger_collect outcome d0 w = (r', d', w') \<longrightarrow>
        r' \<in> set (all_filed d') \<and> c_function (heap w' r') = None
        \<and> c_args (heap w' r') = None \<and> c_argstring (heap w' r') = None
        \<and> debugger_function (heap w') d' = Inl (ValueError ''No call collected''))"
proof -
  have loop: "debugger_function h1 d1 = Inl (ValueError ''No call collected'')"
    if mem: "r1 \<in> set (all_filed d1)" and none: "c_function (h1 r1) = None" for h1 d1 r1
  proof -
    have "function_loop h1 (all_filed d1) ({}, []) = Inl (ValueError ''No call collected'')"
      using mem none by (rule function_loop_raises)
    then show ?thesis by (simp add: debugger_function_def all_filed_def)
  qed
  have coll: "r' \<in> set (all_filed d') \<and> c_function (heap w' r') = None
        \<and> c_args (heap w' r') = None \<and> c_argstring (heap w' r') = None"
    if "debugger_collect outcome d0 w = (r', d', w')"
    using that all_filed_add_collector [of "next_oid w" outcome d0]
    by (auto simp: debugger_collect_def Let_def add_items_to_ignore_def new_collector_def)
  have a: "c_function c = None \<longrightarrow> collector_function c = Inl (ValueError ''No call collected'')"
    by (simp add: collector_function_def)
  have b: "c_args c = None \<longrightarrow> args c = Inl (ValueError ''No call collected'')"
    by (simp add: args_def)
  have c: "c_argstring c = None \<longrightarrow> argstring c = Inl (ValueError ''No call collected'')"
    by (simp add: argstring_def)
  have d: "r \<in> set (all_filed d) \<and> c_function (h r) = None \<longrightarrow>
        debugger_function h d = Inl (ValueError ''No call collected'')"
    using loop by blast
  have e: "debugger_collect outcome d0 w = (r', d', w') \<longrightarrow>
        r' \<in> set (all_filed d') \<and> c_function (heap w' r') = None
        \<and> c_args (heap w' r') = None \<and> c_argstring (heap w' r') = None
        \<and> debugger_function (heap w') d' = Inl (ValueError ''No call collected'')"
    using coll loop by blast
  show ?thesis
    using a b c d e by (intro conjI)
qed

theorem no_call_collected_raises_witness:
  "fst state3 = 8 \<and> 8 \<in> set (all_filed (fst (snd state3)))
     \<and> collector_function (heap (snd (snd state3)) 8) = Inl (ValueError ''No call collected'')
     \<and> debugger_function (heap (snd (snd state3))) (fst (snd state3))
           = Inl (ValueError ''No call collected'')"
proof -
  have r: "fst state3 = 8" using state3_eval by simp
  have t0: "debugger_collect PASS (fst state2) (snd state2) = state3"
    by (simp add: state3_def collect_pass_def)
  have t: "debugger_collect PASS (fst state2) (snd state2)
             = (8, fst (snd state3), snd (snd state3))"
    unfolding t0 using r by (metis prod.collapse)
  show ?thesis
    using r no_call_collected_raises
            [where c = "heap (snd (snd state3)) 8" and outcome = PASS and ?d0.0 = "fst state2"
               and w = "snd state2" and r' = 8 and d' = "fst (snd state3)"
               and w' = "snd (snd state3)"]
          t
    by simp
qed

section \<open>Ranking\<close>

lemma well_filed_new: "well_filed (new_debugger cls ccls unk)"
  by (simp add: well_filed_def lists_nonempty_def new_debugger_def)

lemma keys_add_collector:
  "map fst (collectors (add_collector outcome r d)) =
     (if map_of (collectors d) outcome = None then map fst (collectors d) @ [outcome]
      else map fst (collectors d))"
proof -
  have "map fst (map (\<lambda>(k, l). if k = outcome then (k, l @ [r]) else (k, l)) cs) = map fst cs"
    for cs :: "(string \<times> nat list) list"
    by (induction cs) auto
  then show ?thesis by (simp add: add_collector_def Let_def)
qed

lemma well_filed_add:
  assumes "well_filed d" and "outcome = PASS \<or> outcome = FAIL"
  shows "well_filed (add_collector outcome r d)"
proof -
  have "distinct (map fst (collectors (add_collector outcome r d)))"
    using assms(1) by (auto simp: keys_add_collector well_filed_def map_of_eq_None_iff)
  moreover have "lists_nonempty (add_collector outcome r d)"
    using assms(1) by (simp add: well_filed_def lists_nonempty_add)
  moreover have "\<forall>k \<in> set (map fst (collectors (add_collector outcome r d))). k = PASS \<or> k = FAIL"
    using assms by (auto simp: keys_add_collector well_filed_def split: if_splits)
  ultimately show ?thesis by (simp add: well_filed_def)
qed

lemma well_filed_entered: "well_filed (d\<lparr>d_collector := x\<rparr>) = well_filed d"
  by (simp add: well_filed_def lists_nonempty_def)

lemma well_filed_session:
  assumes "well_filed d"
  shows "well_filed (fst (snd (session d w evs exc)))"
  using assms
  by (auto simp: session_eq Let_def well_filed_entered well_filed_add split: option.splits)

lemma well_filed_sessions:
  "well_filed (fst dw) \<Longrightarrow> well_filed (fst (sessions blocks dw))"
proof (induction blocks arbitrary: dw)
  case Nil
  then show ?case by simp
next
  case (Cons b blocks)
  obtain evs exc where b: "b = (evs, exc)" by (cases b)
  obtain d w where dw: "dw = (d, w)" by (cases dw)
  obtain res d' w' where s: "session d w evs exc = (res, d', w')" by (metis prod.exhaust)
  have "well_filed d'" using well_filed_session [of d w evs exc] Cons.prems s dw by simp
  then show ?case using Cons.IH [of "(d', w')"] by (simp add: b dw s)
qed

lemma observed_defined:
  assumes "well_filed d" and "e \<in> all_events h d None"
  shows "\<exists>s. suspiciousness h d e = Inr (Some s)"
proof -
  from assms(2) obtain k l r where kl: "(k, l) \<in> set (collectors d)" and r: "r \<in> set l"
      and e: "e \<in> events (h r)"
    by (auto simp: all_events_def)
  have ne: "lists_nonempty d" using assms(1) by (simp add: well_filed_def)
  have "map_of (collectors d) k = Some l"
    using assms(1) kl by (simp add: well_filed_def)
  then have fk: "filed d k = l" by (simp add: filed_def)
  have k: "k = PASS \<or> k = FAIL"
    using assms(1) kl by (force simp: well_filed_def)
  obtain passed where p: "event_fraction h d e PASS = Inr passed"
    using event_fraction_value [OF ne] by blast
  obtain failed where f: "event_fraction h d e FAIL = Inr failed"
    using event_fraction_value [OF ne] by blast
  have p0: "0 \<le> passed"
    using p event_fraction_value [OF ne, of h e PASS]
          fraction_bounds [of "filed d PASS" "\<lambda>r. e \<in> events (h r)"]
    by (auto split: if_splits)
  have f0: "0 \<le> failed"
    using f event_fraction_value [OF ne, of h e FAIL]
          fraction_bounds [of "filed d FAIL" "\<lambda>r. e \<in> events (h r)"]
    by (auto split: if_splits)
  have "passed \<noteq> 0 \<or> failed \<noteq> 0"
    using k fk r e event_fraction_zero_iff [OF ne p] event_fraction_zero_iff [OF ne f] by auto
  then have "passed + failed \<noteq> 0" using p0 f0 by linarith
  then show ?thesis
    using suspiciousness_value [OF p f p0 f0] by simp
qed

lemma sort_keys_ok:
  assumes "\<forall>e \<in> set evs. \<exists>s. suspiciousness h d e = Inr (Some s)"
  shows "\<exists>ks. sort_keys h d evs = Inr ks \<and> length ks = length evs
            \<and> (\<forall>p \<in> set (zip ks evs). suspiciousness h d (snd p) = Inr (Some (fst p)))"
  using assms
proof (induction evs)
  case Nil
  then show ?case by simp
next
  case (Cons e evs)
  obtain s where s: "suspiciousness h d e = Inr (Some s)" using Cons.prems by auto
  obtain ks where ks: "sort_keys h d evs = Inr ks" "length ks = length evs"
      "\<forall>p \<in> set (zip ks evs). suspiciousness h d (snd p) = Inr (Some (fst p))"
    using Cons.IH Cons.prems by auto
  have "sort_keys h d (e # evs) = Inr (s # ks)"
    by (simp add: susp_def s ks(1))
  then show ?case using s ks(2,3) by auto
qed

lemma rank_ok:
  assumes "well_filed d" and "distinct evs" and "set evs = all_events h d None"
  shows "\<exists>ranked keys. rank h d evs = Inr ranked
           \<and> set ranked = all_events h d None \<and> distinct ranked
           \<and> map (suspiciousness h d) ranked = map (\<lambda>k. Inr (Some k)) keys
           \<and> sorted_wrt (\<lambda>a b. b \<le> a) keys"
proof -
  have "\<forall>e \<in> set evs. \<exists>s. suspiciousness h d e = Inr (Some s)"
    using assms(1,3) observed_defined by blast
  then obtain ks where ks: "sort_keys h d evs = Inr ks" "length ks = length evs"
      "\<forall>p \<in> set (zip ks evs). suspiciousness h d (snd p) = Inr (Some (fst p))"
    using sort_keys_ok by blast
  let ?zs = "zip ks evs"
  let ?S = "sort_key (\<lambda>p. - fst p) ?zs"
  have rk: "rank h d evs = Inr (map snd ?S)"
    by (simp add: rank_def ks(1))
  have snd_zs: "map snd ?zs = evs" using ks(2) by simp
  have set_r: "set (map snd ?S) = set evs"
  proof -
    have "set (map snd ?S) = snd ` set ?zs" by simp
    also have "\<dots> = set (map snd ?zs)" by simp
    finally show ?thesis by (simp only: snd_zs)
  qed
  have "distinct (map snd ?zs)" using assms(2) by (simp only: snd_zs)
  then have "distinct ?zs \<and> inj_on snd (set ?zs)" by (simp add: distinct_map)
  then have dist_r: "distinct (map snd ?S)" by (simp add: distinct_map)
  have keys: "map (suspiciousness h d) (map snd ?S) = map (\<lambda>k. Inr (Some k)) (map fst ?S)"
    using ks(3) by simp
  have "sorted (map (\<lambda>p. - fst p) ?S)" by (rule sorted_sort_key)
  then have srt: "sorted_wrt (\<lambda>a b. b \<le> a) (map fst ?S)"
    by (simp add: sorted_wrt_map sorted_map)
  show ?thesis
    using rk set_r dist_r keys srt assms(3) by blast
qed

text \<open>
  C3.  In every state that a sequence of sessions of a new debugger leads to, and for
  every order in which the set of all events is enumerated: every event of \<open>all_events\<close>
  has a defined suspiciousness, so the assertion in \<open>rank\<close> does not fire; \<open>rank\<close>
  returns a list with exactly the elements of \<open>all_events\<close>, without duplicates, whose
  suspiciousness values are in descending order.
\<close>

theorem rank_spec:
  assumes "sessions blocks (new_debugger cls ccls unk, w0) = (d, w)"
    and "distinct evs" and "set evs = all_events (heap w) d None"
  shows "(\<forall>e \<in> all_events (heap w) d None. \<exists>s. suspiciousness (heap w) d e = Inr (Some s))
       \<and> (\<exists>ranked keys. rank (heap w) d evs = Inr ranked
             \<and> set ranked = all_events (heap w) d None \<and> distinct ranked
             \<and> map (suspiciousness (heap w) d) ranked = map (\<lambda>k. Inr (Some k)) keys
             \<and> sorted_wrt (\<lambda>a b. b \<le> a) keys)"
proof -
  have "well_filed (fst (sessions blocks (new_debugger cls ccls unk, w0)))"
    by (rule well_filed_sessions) (simp add: well_filed_new)
  then have wf: "well_filed d" using assms(1) by simp
  show ?thesis
    using observed_defined [OF wf] rank_ok [OF wf assms(2,3)] by blast
qed

lemma state4_eval:
  "collectors (fst state4) = [(''PASS'', [2]), (''FAIL'', [5])]"
  "events (heap (snd state4) 2) = {(''f'', 10), (''f'', 11)}"
  "events (heap (snd state4) 5) = {(''f'', 10), (''f'', 12)}"
  by (simp_all add: state4_def session_def debugger_enter_def debugger_exit_def
        collector_enter_def collector_exit_def trace_block_def with_exit_def
        traceit_internal_def traceit_def first_call_def collect_def collect_function_def
        create_function_def search_func_def coverage_add_def our_frame_def ignores_def
        is_internal_error_def add_collector_def add_items_to_ignore_def new_collector_def
        tarantula0_def new_debugger_def world0_def block_f_def block_f_fail_def frame_f_def
        code_f_def collector0_def fault1_def frame_module_def events_def PASS_def FAIL_def
        Let_def insert_commute)

lemma state4_events:
  "all_events (heap (snd state4)) (fst state4) None = {(''f'', 10), (''f'', 11), (''f'', 12)}"
  by (auto simp: all_events_def state4_eval)

lemma state4_suspiciousness:
  "suspiciousness (heap (snd state4)) (fst state4) (''f'', 10) = Inr (Some (1 / 2))"
  "suspiciousness (heap (snd state4)) (fst state4) (''f'', 11) = Inr (Some 0)"
  "suspiciousness (heap (snd state4)) (fst state4) (''f'', 12) = Inr (Some 1)"
  by (simp_all add: suspiciousness_def hue_def passed_fraction_def failed_fraction_def
        event_fraction_def collectors_with_event_def state4_eval PASS_def FAIL_def)

theorem rank_spec_witness:
  "distinct [(''f'', 10 :: int), (''f'', 11), (''f'', 12)]
     \<and> set [(''f'', 10), (''f'', 11), (''f'', 12)]
         = all_events (heap (snd state4)) (fst state4) None
     \<and> rank (heap (snd state4)) (fst state4) [(''f'', 10), (''f'', 11), (''f'', 12)]
         = Inr [(''f'', 12), (''f'', 10), (''f'', 11)]
     \<and> (\<exists>ranked keys.
           rank (heap (snd state4)) (fst state4) [(''f'', 10), (''f'', 11), (''f'', 12)] = Inr ranked
           \<and> set ranked = all_events (heap (snd state4)) (fst state4) None \<and> distinct ranked
           \<and> map (suspiciousness (heap (snd state4)) (fst state4)) ranked
               = map (\<lambda>k. Inr (Some k)) keys
           \<and> sorted_wrt (\<lambda>a b. b \<le> a) keys)"
proof -
  have s: "sessions [(block_f, None), (block_f_fail, Some fault1)]
             (new_debugger ''TarantulaDebugger'' ''CoverageCollector'' True, world0)
           = (fst state4, snd state4)"
    by (simp add: state4_def tarantula0_def)
  have d: "distinct [(''f'', 10 :: int), (''f'', 11), (''f'', 12)]" by simp
  have e: "set [(''f'', 10), (''f'', 11), (''f'', 12)]
             = all_events (heap (snd state4)) (fst state4) None"
    by (simp add: state4_events)
  have r: "rank (heap (snd state4)) (fst state4) [(''f'', 10), (''f'', 11), (''f'', 12)]
             = Inr [(''f'', 12), (''f'', 10), (''f'', 11)]"
    by (simp add: rank_def susp_def state4_suspiciousness)
  show ?thesis
    using d e r rank_spec [OF s d e] by blast
qed

end
